theory Spec2Isabelle
  imports Complex_Main "HOL-Library.Multiset"
begin

section \<open>Habit tracker: the streak engine of \<^verbatim>\<open>habit_tracker.py\<close>\<close>

subsection \<open>Python values: errors, dates, datetimes, timedeltas\<close>

text \<open>
  Exceptions of the Python code are values. \<open>ValueError\<close> is raised by
  \<^verbatim>\<open>track_streaks\<close> (unknown period), by \<^verbatim>\<open>max\<close> on an empty sequence and by
  \<^verbatim>\<open>strptime\<close>; \<open>TypeError\<close> by comparing or subtracting a \<^verbatim>\<open>date\<close> and a
  \<^verbatim>\<open>datetime\<close>; \<open>AttributeError\<close> by calling \<^verbatim>\<open>.date()\<close> on a \<^verbatim>\<open>date\<close>;
  \<open>IndexError\<close> by indexing an empty list.
\<close>

datatype error = ValueError | TypeError | AttributeError | IndexError

text \<open>
  The list \<^verbatim>\<open>Habit.completions\<close> holds two kinds of objects: \<^verbatim>\<open>complete\<close> appends
  \<^verbatim>\<open>datetime.datetime.now()\<close>, while \<^verbatim>\<open>generate_example_data\<close> and \<^verbatim>\<open>from_dict\<close>
  store \<^verbatim>\<open>datetime.date\<close> objects.
  A \<^verbatim>\<open>date\<close> is modelled by its proleptic Gregorian ordinal (\<^verbatim>\<open>date.toordinal()\<close>,
  1 for 0001-01-01), a naive \<^verbatim>\<open>datetime\<close> by the number of microseconds since
  midnight of the day with ordinal 0, a \<^verbatim>\<open>timedelta\<close> by its length in microseconds.
  Python's range limits (years 1 to 9999) are not modelled.
\<close>

datatype completion = PyDate int | PyDatetime int

definition us_per_day :: int where
  "us_per_day = 86400000000"

text \<open>\<^verbatim>\<open>a - b\<close>: defined for two dates and for two datetimes, a \<^verbatim>\<open>TypeError\<close> otherwise.\<close>

fun py_sub :: "completion \<Rightarrow> completion \<Rightarrow> error + int" where
  "py_sub (PyDate a) (PyDate b) = Inr ((a - b) * us_per_day)"
| "py_sub (PyDatetime a) (PyDatetime b) = Inr (a - b)"
| "py_sub (PyDate a) (PyDatetime b) = Inl TypeError"
| "py_sub (PyDatetime a) (PyDate b) = Inl TypeError"

text \<open>\<^verbatim>\<open>timedelta.days\<close>: the whole days of a timedelta, rounded towards minus infinity.\<close>

definition days :: "int \<Rightarrow> int" where
  "days td = td div us_per_day"

text \<open>\<^verbatim>\<open>timedelta(days=n)\<close>.\<close>

definition timedelta_days :: "int \<Rightarrow> int" where
  "timedelta_days n = n * us_per_day"

text \<open>\<^verbatim>\<open>c + timedelta(days=n)\<close>, for a date and for a datetime.\<close>

fun plus_days :: "completion \<Rightarrow> int \<Rightarrow> completion" where
  "plus_days (PyDate d) n = PyDate (d + n)"
| "plus_days (PyDatetime t) n = PyDatetime (t + timedelta_days n)"

text \<open>\<^verbatim>\<open>datetime.date()\<close>: the calendar day of a datetime, as an ordinal.\<close>

definition date_of :: "int \<Rightarrow> int" where
  "date_of t = t div us_per_day"

subsection \<open>Sorting a list of completions\<close>

text \<open>
  \<^verbatim>\<open>sorted(xs)\<close> and \<^verbatim>\<open>xs.sort()\<close> compare the elements with \<^verbatim>\<open><\<close>. Dates compare by
  ordinal and datetimes by instant; comparing a date with a datetime raises
  \<^verbatim>\<open>TypeError\<close>, which every sort of a list that holds both kinds meets. Equal
  elements of one kind are the same value, so the order of the result is determined.
\<close>

definition is_date :: "completion \<Rightarrow> bool" where
  "is_date c = (case c of PyDate _ \<Rightarrow> True | PyDatetime _ \<Rightarrow> False)"

definition homogeneous :: "completion list \<Rightarrow> bool" where
  "homogeneous cs = (list_all is_date cs \<or> list_all (\<lambda>c. \<not> is_date c) cs)"

definition ticks :: "completion \<Rightarrow> int" where
  "ticks c = (case c of PyDate d \<Rightarrow> d | PyDatetime t \<Rightarrow> t)"

definition py_sorted :: "completion list \<Rightarrow> error + completion list" where
  "py_sorted cs = (if homogeneous cs then Inr (sort_key ticks cs) else Inl TypeError)"

subsection \<open>Python's \<^verbatim>\<open>max\<close> and \<^verbatim>\<open>min\<close> with a key\<close>

text \<open>
  \<^verbatim>\<open>max(xs, key=f)\<close> keeps the first item and replaces it only by an item whose key
  is strictly greater, so the first of several maximal items is returned; \<^verbatim>\<open>min\<close>
  replaces on a strictly smaller key. An exception of the key function propagates.
  On an empty sequence the result is \<open>None\<close> here: the caller supplies the default
  or raises \<^verbatim>\<open>ValueError\<close>.
\<close>

fun max_loop :: "('a \<Rightarrow> error + int) \<Rightarrow> 'a \<Rightarrow> int \<Rightarrow> 'a list \<Rightarrow> error + 'a" where
  "max_loop key m mv [] = Inr m"
| "max_loop key m mv (x # xs) =
     (case key x of
        Inl e \<Rightarrow> Inl e
      | Inr v \<Rightarrow> if v > mv then max_loop key x v xs else max_loop key m mv xs)"

definition py_max :: "('a \<Rightarrow> error + int) \<Rightarrow> 'a list \<Rightarrow> error + 'a option" where
  "py_max key xs =
     (case xs of
        [] \<Rightarrow> Inr None
      | x # rest \<Rightarrow>
          (case key x of
             Inl e \<Rightarrow> Inl e
           | Inr v \<Rightarrow> (case max_loop key x v rest of Inl e \<Rightarrow> Inl e | Inr m \<Rightarrow> Inr (Some m))))"

fun min_loop :: "('a \<Rightarrow> error + int) \<Rightarrow> 'a \<Rightarrow> int \<Rightarrow> 'a list \<Rightarrow> error + 'a" where
  "min_loop key m mv [] = Inr m"
| "min_loop key m mv (x # xs) =
     (case key x of
        Inl e \<Rightarrow> Inl e
      | Inr v \<Rightarrow> if v < mv then min_loop key x v xs else min_loop key m mv xs)"

definition py_min :: "('a \<Rightarrow> error + int) \<Rightarrow> 'a list \<Rightarrow> error + 'a option" where
  "py_min key xs =
     (case xs of
        [] \<Rightarrow> Inr None
      | x # rest \<Rightarrow>
          (case key x of
             Inl e \<Rightarrow> Inl e
           | Inr v \<Rightarrow> (case min_loop key x v rest of Inl e \<Rightarrow> Inl e | Inr m \<Rightarrow> Inr (Some m))))"

subsection \<open>class \<^verbatim>\<open>Habit\<close>\<close>

record habit =
  name :: string
  period :: string
  creation_time :: string
  completions :: "completion list"

text \<open>
  The scan of \<^verbatim>\<open>_track_daily_streaks\<close> and \<^verbatim>\<open>_track_weekly_streaks\<close> (the two loops
  differ only in the constant, 1 or 7). \<open>prev\<close> is \<^verbatim>\<open>dates[i - 1]\<close>, the list is
  \<^verbatim>\<open>dates[i:]\<close>, \<open>streaks\<close> and \<open>cur\<close> are the two accumulators; after the loop the
  open streak is appended.
\<close>

fun streak_loop ::
  "int \<Rightarrow> completion \<Rightarrow> completion list \<Rightarrow> completion list list \<Rightarrow> completion list
     \<Rightarrow> error + completion list list" where
  "streak_loop thr prev [] streaks cur = Inr (streaks @ [cur])"
| "streak_loop thr prev (c # rest) streaks cur =
     (case py_sub c prev of
        Inl e \<Rightarrow> Inl e
      | Inr td \<Rightarrow>
          if days td \<le> thr then streak_loop thr c rest streaks (cur @ [c])
          else streak_loop thr c rest (streaks @ [cur]) [c])"

text \<open>
  Both functions return the streaks and the habit after the call:
  \<^verbatim>\<open>_track_daily_streaks\<close> sorts a copy (\<^verbatim>\<open>sorted(self.completions)\<close>),
  \<^verbatim>\<open>_track_weekly_streaks\<close> sorts the habit's own list (\<^verbatim>\<open>self.completions.sort()\<close>).
  When an exception leaves the call, the habit after it is not modelled. The case
  \<open>IndexError\<close> of \<^verbatim>\<open>dates[0]\<close> is never taken, since the list is not empty there.
\<close>

definition track_daily_streaks :: "habit \<Rightarrow> error + (completion list list \<times> habit)" where
  "track_daily_streaks h =
     (if completions h = [] then Inr ([], h)
      else case py_sorted (completions h) of
        Inl e \<Rightarrow> Inl e
      | Inr dates \<Rightarrow>
          (case dates of
             [] \<Rightarrow> Inl IndexError
           | d # rest \<Rightarrow>
               (case streak_loop 1 d rest [] [d] of
                  Inl e \<Rightarrow> Inl e
                | Inr streaks \<Rightarrow> Inr (streaks, h))))"

definition track_weekly_streaks :: "habit \<Rightarrow> error + (completion list list \<times> habit)" where
  "track_weekly_streaks h =
     (if completions h = [] then Inr ([], h)
      else case py_sorted (completions h) of
        Inl e \<Rightarrow> Inl e
      | Inr dates \<Rightarrow>
          (case dates of
             [] \<Rightarrow> Inl IndexError
           | d # rest \<Rightarrow>
               (case streak_loop 7 d rest [] [d] of
                  Inl e \<Rightarrow> Inl e
                | Inr streaks \<Rightarrow> Inr (streaks, h\<lparr>completions := dates\<rparr>))))"

definition track_streaks :: "habit \<Rightarrow> error + (completion list list \<times> habit)" where
  "track_streaks h =
     (if period h = ''daily'' then track_daily_streaks h
      else if period h = ''weekly'' then track_weekly_streaks h
      else Inl ValueError)"

definition calculate_streak_duration :: "completion list \<Rightarrow> error + int" where
  "calculate_streak_duration streak =
     (if streak = [] then Inr 0
      else case py_sub (last streak) (hd streak) of
        Inl e \<Rightarrow> Inl e
      | Inr td \<Rightarrow> Inr (days td + 1))"

text \<open>\<^verbatim>\<open>sum(self.calculate_streak_duration(streak) for streak in streaks)\<close>.\<close>

fun sum_durations :: "completion list list \<Rightarrow> error + int" where
  "sum_durations [] = Inr 0"
| "sum_durations (s # ss) =
     (case calculate_streak_duration s of
        Inl e \<Rightarrow> Inl e
      | Inr d \<Rightarrow> (case sum_durations ss of Inl e \<Rightarrow> Inl e | Inr t \<Rightarrow> Inr (d + t)))"

text \<open>
  The average is Python's true division of two integers; it is modelled by the exact
  rational, which the float result equals whenever the quotient is an integer.
\<close>

definition calculate_average_streak_duration :: "habit \<Rightarrow> error + (rat \<times> habit)" where
  "calculate_average_streak_duration h =
     (case track_streaks h of
        Inl e \<Rightarrow> Inl e
      | Inr (streaks, h') \<Rightarrow>
          (case sum_durations streaks of
             Inl e \<Rightarrow> Inl e
           | Inr total_streak_duration \<Rightarrow>
               Inr (if length streaks > 0 then of_int total_streak_duration / of_nat (length streaks) else 0, h')))"

definition find_longest_streak :: "habit \<Rightarrow> error + (int \<times> habit)" where
  "find_longest_streak h =
     (case track_streaks h of
        Inl e \<Rightarrow> Inl e
      | Inr (streaks, h') \<Rightarrow>
          (case py_max calculate_streak_duration streaks of
             Inl e \<Rightarrow> Inl e
           | Inr longest \<Rightarrow>
               (case calculate_streak_duration (case longest of None \<Rightarrow> [] | Some s \<Rightarrow> s) of
                  Inl e \<Rightarrow> Inl e
                | Inr d \<Rightarrow> Inr (d, h'))))"

definition find_shortest_streak :: "habit \<Rightarrow> error + (int \<times> habit)" where
  "find_shortest_streak h =
     (case track_streaks h of
        Inl e \<Rightarrow> Inl e
      | Inr (streaks, h') \<Rightarrow>
          (case py_min calculate_streak_duration streaks of
             Inl e \<Rightarrow> Inl e
           | Inr shortest \<Rightarrow>
               (case calculate_streak_duration (case shortest of None \<Rightarrow> [] | Some s \<Rightarrow> s) of
                  Inl e \<Rightarrow> Inl e
                | Inr d \<Rightarrow> Inr (d, h'))))"

text \<open>
  \<^verbatim>\<open>complete\<close>, with \<^verbatim>\<open>datetime.datetime.now()\<close> as the argument \<open>now\<close>. The generator
  under \<^verbatim>\<open>any\<close> calls \<^verbatim>\<open>completion.date()\<close> on each element in turn and stops at the
  first match; a \<^verbatim>\<open>date\<close> object has no method \<^verbatim>\<open>date\<close>. The result holds the printed
  lines and the habit after the call.
\<close>

fun any_same_day :: "int \<Rightarrow> completion list \<Rightarrow> error + bool" where
  "any_same_day today [] = Inr False"
| "any_same_day today (PyDate d # cs) = Inl AttributeError"
| "any_same_day today (PyDatetime t # cs) =
     (if today = date_of t then Inr True else any_same_day today cs)"

definition complete :: "int \<Rightarrow> habit \<Rightarrow> error + (string list \<times> habit)" where
  "complete now h =
     (case any_same_day (date_of now) (completions h) of
        Inl e \<Rightarrow> Inl e
      | Inr True \<Rightarrow> Inr ([''Habit already completed for today.''], h)
      | Inr False \<Rightarrow> Inr ([], h\<lparr>completions := completions h @ [PyDatetime now]\<rparr>))"

text \<open>
  \<^verbatim>\<open>get_streak\<close>: sorts a copy, then counts the adjacent pairs whose difference (a
  timedelta, compared as such) is at most one day, or seven days for every period
  other than \<^verbatim>\<open>'daily'\<close>.
\<close>

fun get_streak_loop :: "int \<Rightarrow> completion \<Rightarrow> completion list \<Rightarrow> int \<Rightarrow> int \<Rightarrow> error + int" where
  "get_streak_loop gap prev [] streak max_streak = Inr (max max_streak streak)"
| "get_streak_loop gap prev (c # rest) streak max_streak =
     (case py_sub c prev of
        Inl e \<Rightarrow> Inl e
      | Inr td \<Rightarrow>
          if td \<le> gap then get_streak_loop gap c rest (streak + 1) max_streak
          else get_streak_loop gap c rest 0 (max max_streak streak))"

definition get_streak :: "habit \<Rightarrow> error + int" where
  "get_streak h =
     (case py_sorted (completions h) of
        Inl e \<Rightarrow> Inl e
      | Inr dates \<Rightarrow>
          (let gap = timedelta_days (if period h = ''daily'' then 1 else 7)
           in case dates of
                [] \<Rightarrow> Inr (max 0 0)
              | d # rest \<Rightarrow> get_streak_loop gap d rest 0 0))"

subsection \<open>class \<^verbatim>\<open>HabitTracker\<close>\<close>

record habit_tracker =
  habits :: "habit list"

text \<open>\<^verbatim>\<open>max(self.habits, key=lambda habit: habit.get_streak()).name\<close>.\<close>

definition longest_run_streak :: "habit_tracker \<Rightarrow> error + string" where
  "longest_run_streak t =
     (case py_max get_streak (habits t) of
        Inl e \<Rightarrow> Inl e
      | Inr None \<Rightarrow> Inl ValueError
      | Inr (Some h) \<Rightarrow> Inr (name h))"

subsection \<open>Saving and loading: \<^verbatim>\<open>str\<close>, \<^verbatim>\<open>strptime\<close>, \<^verbatim>\<open>save_to_file\<close>, \<^verbatim>\<open>from_dict\<close>\<close>

text \<open>
  The calendar arithmetic of Python's \<^verbatim>\<open>datetime\<close> module (\<^verbatim>\<open>_is_leap\<close>,
  \<^verbatim>\<open>_days_before_year\<close>, \<^verbatim>\<open>_days_in_month\<close>, \<^verbatim>\<open>_days_before_month\<close>, \<^verbatim>\<open>_ymd2ord\<close>,
  \<^verbatim>\<open>_ord2ymd\<close>), which converts between an ordinal and year, month, day.
\<close>

definition is_leap :: "int \<Rightarrow> bool" where
  "is_leap year = (year mod 4 = 0 \<and> (year mod 100 \<noteq> 0 \<or> year mod 400 = 0))"

definition DAYS_IN_MONTH :: "int list" where
  "DAYS_IN_MONTH = [-1, 31, 28, 31, 30, 31, 30, 31, 31, 30, 31, 30, 31]"

definition DAYS_BEFORE_MONTH :: "int list" where
  "DAYS_BEFORE_MONTH = [-1, 0, 31, 59, 90, 120, 151, 181, 212, 243, 273, 304, 334]"

definition days_before_year :: "int \<Rightarrow> int" where
  "days_before_year year = (let y = year - 1 in y * 365 + y div 4 - y div 100 + y div 400)"

definition days_in_month :: "int \<Rightarrow> int \<Rightarrow> int" where
  "days_in_month year month =
     (if month = 2 \<and> is_leap year then 29 else DAYS_IN_MONTH ! nat month)"

definition days_before_month :: "int \<Rightarrow> int \<Rightarrow> int" where
  "days_before_month year month =
     DAYS_BEFORE_MONTH ! nat month + (if month > 2 \<and> is_leap year then 1 else 0)"

definition ymd2ord :: "int \<Rightarrow> int \<Rightarrow> int \<Rightarrow> int" where
  "ymd2ord year month day = days_before_year year + days_before_month year month + day"

definition ord2ymd :: "int \<Rightarrow> int \<times> int \<times> int" where
  "ord2ymd ordinal =
     (let n = ordinal - 1;
          n400 = n div 146097; n = n mod 146097;
          year = n400 * 400 + 1;
          n100 = n div 36524; n = n mod 36524;
          n4 = n div 1461; n = n mod 1461;
          n1 = n div 365; n = n mod 365;
          year = year + n100 * 100 + n4 * 4 + n1
      in if n1 = 4 \<or> n100 = 4 then (year - 1, 12, 31)
         else
           let leapyear = (n1 = 3 \<and> (n4 \<noteq> 24 \<or> n100 = 3));
               month = (n + 50) div 32;
               preceding = DAYS_BEFORE_MONTH ! nat month + (if month > 2 \<and> leapyear then 1 else 0)
           in if preceding > n
              then
                let month = month - 1;
                    preceding = preceding
                      - (DAYS_IN_MONTH ! nat month + (if month = 2 \<and> leapyear then 1 else 0))
                in (year, month, n - preceding + 1)
              else (year, month, n - preceding + 1))"

text \<open>\<^verbatim>\<open>"%0wd" % n\<close> for a natural number: its decimal digits, padded with zeros to width \<open>w\<close>.\<close>

definition digit_char :: "nat \<Rightarrow> char" where
  "digit_char n = ''0123456789'' ! n"

function dec_digits :: "nat \<Rightarrow> string" where
  "dec_digits n =
     (if n < 10 then [digit_char n] else dec_digits (n div 10) @ [digit_char (n mod 10)])"
  by pat_completeness auto
termination
  by (relation "measure (\<lambda>n. n)") auto

definition zero_padded :: "nat \<Rightarrow> int \<Rightarrow> string" where
  "zero_padded w n =
     (let s = dec_digits (nat n) in replicate (w - length s) (CHR ''0'') @ s)"

text \<open>
  \<^verbatim>\<open>str(completion)\<close>: \<^verbatim>\<open>YYYY-MM-DD\<close> for a date; for a datetime the date, a space,
  \<^verbatim>\<open>HH:MM:SS\<close> and, when the microsecond is not zero, a dot and six digits.
\<close>

definition str_date :: "int \<Rightarrow> string" where
  "str_date ordinal =
     (case ord2ymd ordinal of
        (y, m, d) \<Rightarrow> zero_padded 4 y @ ''-'' @ zero_padded 2 m @ ''-'' @ zero_padded 2 d)"

definition str_datetime :: "int \<Rightarrow> string" where
  "str_datetime t =
     (let us_of_day = t mod us_per_day;
          hh = us_of_day div 3600000000;
          mm = us_of_day div 60000000 mod 60;
          ss = us_of_day div 1000000 mod 60;
          us = us_of_day mod 1000000
      in str_date (date_of t) @ '' '' @ zero_padded 2 hh @ '':'' @ zero_padded 2 mm @ '':''
           @ zero_padded 2 ss @ (if us \<noteq> 0 then ''.'' @ zero_padded 6 us else []))"

fun py_str :: "completion \<Rightarrow> string" where
  "py_str (PyDate d) = str_date d"
| "py_str (PyDatetime t) = str_datetime t"

text \<open>
  \<^verbatim>\<open>datetime.datetime.strptime(s, "%Y-%m-%d").date()\<close> on an ASCII string. The format
  compiles to the regular expression
  \<^verbatim>\<open>(\d\d\d\d)-(1[0-2]|0[1-9]|[1-9])-(3[0-1]|[1-2]\d|0[1-9]|[1-9]| [1-9])\<close>, matched at
  the start of the string; text left over after the match, no match, and a year,
  month, day that is no date all raise \<^verbatim>\<open>ValueError\<close>.
\<close>

definition is_digit :: "char \<Rightarrow> bool" where
  "is_digit ch = (ch \<in> set ''0123456789'')"

definition is_digit19 :: "char \<Rightarrow> bool" where
  "is_digit19 ch = (ch \<in> set ''123456789'')"

definition digit_val :: "char \<Rightarrow> int" where
  "digit_val ch = int (of_char ch) - 48"

definition parse_month :: "string \<Rightarrow> (int \<times> string) option" where
  "parse_month s =
     (case s of
        [] \<Rightarrow> None
      | [a] \<Rightarrow> if is_digit19 a then Some (digit_val a, []) else None
      | a # b # r \<Rightarrow>
          if a = CHR ''1'' \<and> b \<in> set ''012'' then Some (10 + digit_val b, r)
          else if a = CHR ''0'' \<and> is_digit19 b then Some (digit_val b, r)
          else if is_digit19 a then Some (digit_val a, b # r)
          else None)"

definition parse_day :: "string \<Rightarrow> (int \<times> string) option" where
  "parse_day s =
     (case s of
        [] \<Rightarrow> None
      | [a] \<Rightarrow> if is_digit19 a then Some (digit_val a, []) else None
      | a # b # r \<Rightarrow>
          if a = CHR ''3'' \<and> b \<in> set ''01'' then Some (30 + digit_val b, r)
          else if a \<in> set ''12'' \<and> is_digit b then Some (10 * digit_val a + digit_val b, r)
          else if a = CHR ''0'' \<and> is_digit19 b then Some (digit_val b, r)
          else if is_digit19 a then Some (digit_val a, b # r)
          else if a = CHR '' '' \<and> is_digit19 b then Some (digit_val b, r)
          else None)"

text \<open>The constructor \<^verbatim>\<open>date(year, month, day)\<close> with its range checks.\<close>

definition make_date :: "int \<Rightarrow> int \<Rightarrow> int \<Rightarrow> error + int" where
  "make_date year month day =
     (if 1 \<le> year \<and> year \<le> 9999 \<and> 1 \<le> month \<and> month \<le> 12
         \<and> 1 \<le> day \<and> day \<le> days_in_month year month
      then Inr (ymd2ord year month day) else Inl ValueError)"

definition strptime_date :: "string \<Rightarrow> error + int" where
  "strptime_date s =
     (case s of
        y1 # y2 # y3 # y4 # sep1 # r1 \<Rightarrow>
          if is_digit y1 \<and> is_digit y2 \<and> is_digit y3 \<and> is_digit y4 \<and> sep1 = CHR ''-''
          then
            (case parse_month r1 of
               Some (month, sep2 # r2) \<Rightarrow>
                 if sep2 = CHR ''-''
                 then
                   (case parse_day r2 of
                      Some (day, []) \<Rightarrow>
                        make_date
                          (1000 * digit_val y1 + 100 * digit_val y2 + 10 * digit_val y3
                             + digit_val y4)
                          month day
                    | _ \<Rightarrow> Inl ValueError)
                 else Inl ValueError
             | _ \<Rightarrow> Inl ValueError)
          else Inl ValueError
      | _ \<Rightarrow> Inl ValueError)"

text \<open>
  The record \<^verbatim>\<open>save_to_file\<close> writes for one habit, and \<^verbatim>\<open>Habit.from_dict\<close>, which
  \<^verbatim>\<open>load_from_file\<close> applies to each record read back. \<^verbatim>\<open>json.dump\<close> and
  \<^verbatim>\<open>json.load\<close> return the strings unchanged. \<^verbatim>\<open>from_dict\<close> builds a new
  \<^verbatim>\<open>Habit\<close>, whose creation time is the time \<open>now\<close> of the call.
\<close>

record habit_data =
  data_name :: string
  data_period :: string
  data_creation_time :: string
  data_completions :: "string list"

definition save_habit :: "habit \<Rightarrow> habit_data" where
  "save_habit h =
     \<lparr>data_name = name h, data_period = period h, data_creation_time = creation_time h,
      data_completions = map py_str (completions h)\<rparr>"

fun parse_completions :: "string list \<Rightarrow> error + completion list" where
  "parse_completions [] = Inr []"
| "parse_completions (s # ss) =
     (case strptime_date s of
        Inl e \<Rightarrow> Inl e
      | Inr d \<Rightarrow> (case parse_completions ss of Inl e \<Rightarrow> Inl e | Inr ds \<Rightarrow> Inr (PyDate d # ds)))"

definition init_habit :: "int \<Rightarrow> string \<Rightarrow> string \<Rightarrow> habit" where
  "init_habit now nm per =
     \<lparr>name = nm, period = per, creation_time = str_datetime now, completions = []\<rparr>"

definition from_dict :: "int \<Rightarrow> habit_data \<Rightarrow> error + habit" where
  "from_dict now data =
     (case parse_completions (data_completions data) of
        Inl e \<Rightarrow> Inl e
      | Inr cs \<Rightarrow> Inr ((init_habit now (data_name data) (data_period data))\<lparr>completions := cs\<rparr>))"

subsection \<open>Notions used to state the properties\<close>

text \<open>The streaks alone, without the habit after the call.\<close>

definition streaks_of :: "habit \<Rightarrow> error + completion list list" where
  "streaks_of h = map_sum id fst (track_streaks h)"

text \<open>
  Consecutive streaks are separated by more than \<open>thr\<close> days: the first element of a
  streak minus the last element of the streak before it has \<^verbatim>\<open>.days > thr\<close>.
\<close>

fun separated :: "int \<Rightarrow> completion list list \<Rightarrow> bool" where
  "separated thr (s1 # s2 # ss) =
     ((case py_sub (hd s2) (last s1) of Inl e \<Rightarrow> False | Inr td \<Rightarrow> days td > thr)
      \<and> separated thr (s2 # ss))"
| "separated thr [s] = True"
| "separated thr [] = True"

text \<open>The normalized completion set of the specification: de-duplicated and sorted.\<close>

definition normalized :: "completion list \<Rightarrow> completion list" where
  "normalized cs = sort_key ticks (remdups cs)"


text \<open>Every two neighbours of a list are at most \<open>thr\<close> whole days apart (the test of the streak scan).\<close>

fun chained :: "int \<Rightarrow> completion list \<Rightarrow> bool" where
  "chained thr (a # b # rest) =
     ((case py_sub b a of Inl e \<Rightarrow> False | Inr td \<Rightarrow> days td \<le> thr) \<and> chained thr (b # rest))"
| "chained thr [a] = True"
| "chained thr [] = True"

text \<open>Every two neighbours of a list differ by at most the timedelta \<open>gap\<close> (the test of \<^verbatim>\<open>get_streak\<close>).\<close>

fun within_gap :: "int \<Rightarrow> completion list \<Rightarrow> bool" where
  "within_gap gap (a # b # rest) =
     ((case py_sub b a of Inl e \<Rightarrow> False | Inr td \<Rightarrow> td \<le> gap) \<and> within_gap gap (b # rest))"
| "within_gap gap [a] = True"
| "within_gap gap [] = True"

text \<open>
  What \<^verbatim>\<open>_ord2ymd\<close> has to return for the ordinal \<open>n\<close>: a year, month and day in
  range that \<^verbatim>\<open>_ymd2ord\<close> maps back to \<open>n\<close>.
\<close>

definition valid_ymd :: "int \<Rightarrow> int \<times> int \<times> int \<Rightarrow> bool" where
  "valid_ymd n ymd =
     (case ymd of (y, m, d) \<Rightarrow>
        1 \<le> y \<and> y \<le> 9999 \<and> 1 \<le> m \<and> m \<le> 12 \<and> 1 \<le> d \<and> d \<le> days_in_month y m
        \<and> ymd2ord y m d = n)"

text \<open>The form \<^verbatim>\<open>YYYY-MM-DD\<close>: four digits, a hyphen, two digits, a hyphen, two digits.\<close>

definition is_iso_date :: "string \<Rightarrow> bool" where
  "is_iso_date s =
     (length s = 10 \<and> list_all is_digit (take 4 s) \<and> s ! 4 = CHR ''-''
      \<and> list_all is_digit (take 2 (drop 5 s)) \<and> s ! 7 = CHR ''-''
      \<and> list_all is_digit (drop 8 s))"

text \<open>A completion that is a date, from 0001-01-01 (ordinal 1) to 9999-12-31 (ordinal 3652059).\<close>

definition date_in_range :: "completion \<Rightarrow> bool" where
  "date_in_range c = (case c of PyDate n \<Rightarrow> 1 \<le> n \<and> n \<le> 3652059 | PyDatetime t \<Rightarrow> False)"

text \<open>
  The calendar day of a completion (\<^verbatim>\<open>d\<close> itself for a date, \<^verbatim>\<open>dt.date()\<close> for a
  datetime, as an ordinal) and its time of day in microseconds (0 for a date).
\<close>

fun day_of :: "completion \<Rightarrow> int" where
  "day_of (PyDate d) = d"
| "day_of (PyDatetime t) = date_of t"

fun time_of_day :: "completion \<Rightarrow> int" where
  "time_of_day (PyDate d) = 0"
| "time_of_day (PyDatetime t) = t mod us_per_day"

text \<open>
  The runs of a list: the list cut between every two neighbours that differ by more
  than the timedelta \<open>gap\<close> (or cannot be subtracted). The number of adjacency
  transitions of a run is its length minus one; \<open>most_transitions\<close> is the greatest
  such number over the runs, 0 when there is no run.
\<close>

fun gap_runs :: "int \<Rightarrow> completion list \<Rightarrow> completion list list" where
  "gap_runs gap [] = []"
| "gap_runs gap [a] = [[a]]"
| "gap_runs gap (a # b # rest) =
     (if (case py_sub b a of Inl e \<Rightarrow> False | Inr td \<Rightarrow> td \<le> gap)
      then (case gap_runs gap (b # rest) of [] \<Rightarrow> [[a]] | r # rs \<Rightarrow> (a # r) # rs)
      else [a] # gap_runs gap (b # rest))"


section \<open>Properties\<close>

subsection \<open>Empty completion lists\<close>

lemma track_streaks_empty:
  "completions h = [] \<Longrightarrow> period h = ''daily'' \<or> period h = ''weekly''
     \<Longrightarrow> track_streaks h = Inr ([], h)"
  by (auto simp: track_streaks_def track_daily_streaks_def track_weekly_streaks_def)

text \<open>
  C9. A habit with a valid period and no completions: \<^verbatim>\<open>track_streaks\<close> returns the
  empty list of streaks (no error, no empty streak inside), and the average, the
  longest and the shortest streak duration are all 0.
\<close>

theorem empty_habit_zero_metrics:
  assumes "completions h = []"
    and "period h = ''daily'' \<or> period h = ''weekly''"
  shows "track_streaks h = Inr ([], h)
       \<and> calculate_average_streak_duration h = Inr (0, h)
       \<and> find_longest_streak h = Inr (0, h)
       \<and> find_shortest_streak h = Inr (0, h)"
  using track_streaks_empty [OF assms]
  by (simp add: calculate_average_streak_duration_def find_longest_streak_def
      find_shortest_streak_def py_max_def py_min_def calculate_streak_duration_def)

theorem empty_habit_zero_metrics_witness:
  "track_streaks \<lparr>name = ''Reading'', period = ''weekly'', creation_time = '''', completions = []\<rparr>
     = Inr ([], \<lparr>name = ''Reading'', period = ''weekly'', creation_time = '''', completions = []\<rparr>)
   \<and> calculate_average_streak_duration
       \<lparr>name = ''Reading'', period = ''weekly'', creation_time = '''', completions = []\<rparr>
     = Inr (0, \<lparr>name = ''Reading'', period = ''weekly'', creation_time = '''', completions = []\<rparr>)
   \<and> find_longest_streak
       \<lparr>name = ''Reading'', period = ''weekly'', creation_time = '''', completions = []\<rparr>
     = Inr (0, \<lparr>name = ''Reading'', period = ''weekly'', creation_time = '''', completions = []\<rparr>)
   \<and> find_shortest_streak
       \<lparr>name = ''Reading'', period = ''weekly'', creation_time = '''', completions = []\<rparr>
     = Inr (0, \<lparr>name = ''Reading'', period = ''weekly'', creation_time = '''', completions = []\<rparr>)"
  using empty_habit_zero_metrics
    [of "\<lparr>name = ''Reading'', period = ''weekly'', creation_time = '''', completions = []\<rparr>"]
  by simp

subsection \<open>Unknown periods\<close>

lemma streak_loop_no_ValueError: "streak_loop thr prev rest streaks cur \<noteq> Inl ValueError"
proof (induction rest arbitrary: prev streaks cur)
  case Nil
  show ?case by simp
next
  case (Cons c rest)
  show ?case
    by (cases c; cases prev) (simp_all add: Cons.IH)
qed

lemma track_streaks_ValueError_iff:
  "track_streaks h = Inl ValueError \<longleftrightarrow> period h \<noteq> ''daily'' \<and> period h \<noteq> ''weekly''"
  by (auto simp: track_streaks_def track_daily_streaks_def track_weekly_streaks_def py_sorted_def
      streak_loop_no_ValueError split: sum.splits list.splits)

text \<open>
  C6. For a period other than \<^verbatim>\<open>'daily'\<close> and \<^verbatim>\<open>'weekly'\<close>, \<^verbatim>\<open>track_streaks\<close> raises
  \<^verbatim>\<open>ValueError\<close> whatever the completions are, and the three metrics that call it
  let the error through. It is the only validation: \<^verbatim>\<open>track_streaks\<close> raises
  \<^verbatim>\<open>ValueError\<close> for no other habit.
\<close>

theorem invalid_period_raises:
  "(period h \<noteq> ''daily'' \<and> period h \<noteq> ''weekly'' \<longrightarrow>
      track_streaks h = Inl ValueError
    \<and> calculate_average_streak_duration h = Inl ValueError
    \<and> find_longest_streak h = Inl ValueError
    \<and> find_shortest_streak h = Inl ValueError)
   \<and> (track_streaks h = Inl ValueError \<longrightarrow> period h \<noteq> ''daily'' \<and> period h \<noteq> ''weekly'')"
  using track_streaks_ValueError_iff [of h]
  by (auto simp: calculate_average_streak_duration_def find_longest_streak_def
      find_shortest_streak_def)

theorem invalid_period_raises_witness:
  "track_streaks
     \<lparr>name = ''Reading'', period = ''monthly'', creation_time = '''',
      completions = [PyDate 738641, PyDatetime 5]\<rparr> = Inl ValueError
   \<and> calculate_average_streak_duration
     \<lparr>name = ''Reading'', period = ''monthly'', creation_time = '''',
      completions = [PyDate 738641, PyDatetime 5]\<rparr> = Inl ValueError
   \<and> find_longest_streak
     \<lparr>name = ''Reading'', period = ''monthly'', creation_time = '''',
      completions = [PyDate 738641, PyDatetime 5]\<rparr> = Inl ValueError
   \<and> find_shortest_streak
     \<lparr>name = ''Reading'', period = ''monthly'', creation_time = '''',
      completions = [PyDate 738641, PyDatetime 5]\<rparr> = Inl ValueError"
  using invalid_period_raises
    [of "\<lparr>name = ''Reading'', period = ''monthly'', creation_time = '''',
          completions = [PyDate 738641, PyDatetime 5]\<rparr>"]
  by simp

subsection \<open>The boundary of the adjacency rule\<close>

text \<open>
  C2. One completion gives one streak, of duration 1. With period \<^verbatim>\<open>'daily'\<close>, a
  completion and the one exactly one day later share a streak and two completions two
  days apart do not; with \<^verbatim>\<open>'weekly'\<close> the same holds for seven and eight days. The
  completion \<open>c\<close> is a date or a datetime, and the list may hold the two in either
  order.
\<close>

theorem adjacency_boundary_inclusive:
  "streaks_of (h\<lparr>period := ''daily'', completions := [c]\<rparr>) = Inr [[c]]
   \<and> streaks_of (h\<lparr>period := ''weekly'', completions := [c]\<rparr>) = Inr [[c]]
   \<and> calculate_streak_duration [c] = Inr 1
   \<and> streaks_of (h\<lparr>period := ''daily'', completions := [c, plus_days c 1]\<rparr>)
       = Inr [[c, plus_days c 1]]
   \<and> streaks_of (h\<lparr>period := ''daily'', completions := [plus_days c 1, c]\<rparr>)
       = Inr [[c, plus_days c 1]]
   \<and> streaks_of (h\<lparr>period := ''daily'', completions := [c, plus_days c 2]\<rparr>)
       = Inr [[c], [plus_days c 2]]
   \<and> streaks_of (h\<lparr>period := ''daily'', completions := [plus_days c 2, c]\<rparr>)
       = Inr [[c], [plus_days c 2]]
   \<and> streaks_of (h\<lparr>period := ''weekly'', completions := [c, plus_days c 7]\<rparr>)
       = Inr [[c, plus_days c 7]]
   \<and> streaks_of (h\<lparr>period := ''weekly'', completions := [plus_days c 7, c]\<rparr>)
       = Inr [[c, plus_days c 7]]
   \<and> streaks_of (h\<lparr>period := ''weekly'', completions := [c, plus_days c 8]\<rparr>)
       = Inr [[c], [plus_days c 8]]
   \<and> streaks_of (h\<lparr>period := ''weekly'', completions := [plus_days c 8, c]\<rparr>)
       = Inr [[c], [plus_days c 8]]"
  by (cases c)
    (simp_all add: streaks_of_def track_streaks_def track_daily_streaks_def
      track_weekly_streaks_def py_sorted_def homogeneous_def is_date_def ticks_def
      calculate_streak_duration_def days_def us_per_day_def timedelta_days_def)

theorem adjacency_boundary_inclusive_witness:
  "streaks_of \<lparr>name = ''Run'', period = ''daily'', creation_time = '''',
                completions = [PyDate 738641]\<rparr> = Inr [[PyDate 738641]]
   \<and> calculate_streak_duration [PyDate 738641] = Inr 1
   \<and> streaks_of \<lparr>name = ''Run'', period = ''daily'', creation_time = '''',
                completions = [PyDate 738642, PyDate 738641]\<rparr>
       = Inr [[PyDate 738641, PyDate 738642]]
   \<and> streaks_of \<lparr>name = ''Run'', period = ''daily'', creation_time = '''',
                completions = [PyDate 738641, PyDate 738643]\<rparr>
       = Inr [[PyDate 738641], [PyDate 738643]]
   \<and> streaks_of \<lparr>name = ''Run'', period = ''weekly'', creation_time = '''',
                completions = [PyDate 738641, PyDate 738648]\<rparr>
       = Inr [[PyDate 738641, PyDate 738648]]
   \<and> streaks_of \<lparr>name = ''Run'', period = ''weekly'', creation_time = '''',
                completions = [PyDate 738641, PyDate 738649]\<rparr>
       = Inr [[PyDate 738641], [PyDate 738649]]"
  using adjacency_boundary_inclusive
    [where h = "\<lparr>name = ''Run'', period = ''daily'', creation_time = '''', completions = []\<rparr>"
       and c = "PyDate 738641"]
  by simp

subsection \<open>The streaks partition the sorted completion list\<close>

lemma py_sub_same_kind:
  "is_date a = is_date b \<Longrightarrow> \<exists>td. py_sub a b = Inr td"
  by (cases a; cases b) (simp_all add: is_date_def)

lemma homogeneous_Cons:
  "homogeneous (d # rest) \<longleftrightarrow> (\<forall>x\<in>set rest. is_date x = is_date d)"
  by (auto simp: homogeneous_def list_all_iff)

lemma homogeneous_sort_key:
  "homogeneous (sort_key f cs) = homogeneous cs"
  by (simp add: homogeneous_def list_all_iff)

text \<open>
  The invariant of the scan: what is returned is the closed streaks followed by a
  partition of the open streak and the rest of the list, whose first part starts
  with the open streak.
\<close>

lemma streak_loop_partition:
  assumes "\<forall>x\<in>set rest. is_date x = is_date prev" "cur \<noteq> []" "last cur = prev"
  shows "\<exists>ss. streak_loop thr prev rest streaks cur = Inr (streaks @ ss)
           \<and> concat ss = cur @ rest \<and> ss \<noteq> [] \<and> [] \<notin> set ss
           \<and> (\<exists>tl. hd ss = cur @ tl) \<and> separated thr ss"
  using assms
proof (induction rest arbitrary: prev streaks cur)
  case Nil
  show ?case using Nil.prems by auto
next
  case (Cons c rest)
  from Cons.prems(1) have kind: "is_date c = is_date prev"
    and rest: "\<forall>x\<in>set rest. is_date x = is_date c" by simp_all
  from py_sub_same_kind [OF kind] obtain td where td: "py_sub c prev = Inr td" by blast
  show ?case
  proof (cases "days td \<le> thr")
    case True
    from Cons.IH [OF rest, of "cur @ [c]" streaks]
    obtain ss tl where ss: "streak_loop thr c rest streaks (cur @ [c]) = Inr (streaks @ ss)"
      "concat ss = (cur @ [c]) @ rest" "ss \<noteq> []" "[] \<notin> set ss" "hd ss = (cur @ [c]) @ tl"
      "separated thr ss"
      by auto
    show ?thesis
      using td True ss by auto
  next
    case False
    from Cons.IH [OF rest, of "[c]" "streaks @ [cur]"]
    obtain ss tl where ss: "streak_loop thr c rest (streaks @ [cur]) [c] = Inr ((streaks @ [cur]) @ ss)"
      "concat ss = [c] @ rest" "ss \<noteq> []" "[] \<notin> set ss" "hd ss = [c] @ tl"
      "separated thr ss"
      by auto
    from ss(3) obtain s2 ss' where ss': "ss = s2 # ss'" by (cases ss) auto
    with ss(5) have hd2: "hd s2 = c" by simp
    have sep: "separated thr (cur # ss)"
      using ss' hd2 td False ss(6) Cons.prems(3) by simp
    have "streak_loop thr prev (c # rest) streaks cur = Inr (streaks @ (cur # ss))"
      using td False ss(1) by simp
    moreover have "concat (cur # ss) = cur @ c # rest" using ss(2) by simp
    moreover have "[] \<notin> set (cur # ss)" using ss(4) Cons.prems(2) by auto
    ultimately show ?thesis using sep by (intro exI [of _ "cur # ss"]) simp
  qed
qed

lemma sorted_concat_member:
  "sorted (map f (concat ss)) \<Longrightarrow> s \<in> set ss \<Longrightarrow> sorted (map f s)"
  by (induction ss) (auto simp: sorted_append)

lemma track_partition_aux:
  assumes ne: "cs \<noteq> []" and hom: "homogeneous cs"
  shows "\<exists>d rest ss. sort_key ticks cs = d # rest
           \<and> streak_loop thr d rest [] [d] = Inr ss
           \<and> concat ss = sort_key ticks cs
           \<and> (\<forall>s\<in>set ss. s \<noteq> [] \<and> sorted (map ticks s))
           \<and> separated thr ss"
proof -
  from ne have "sort_key ticks cs \<noteq> []"
    by (metis length_0_conv length_sort)
  then obtain d rest where dr: "sort_key ticks cs = d # rest" by (cases "sort_key ticks cs") auto
  from hom have "homogeneous (d # rest)" using homogeneous_sort_key [of ticks cs] dr by simp
  then have k: "\<forall>x\<in>set rest. is_date x = is_date d" by (simp add: homogeneous_Cons)
  from streak_loop_partition [OF k, of "[d]" thr "[]"]
  obtain ss where ss: "streak_loop thr d rest [] [d] = Inr ss" "concat ss = d # rest"
    "[] \<notin> set ss" "separated thr ss" by auto
  have "sorted (map ticks (concat ss))" using ss(2) dr sorted_sort_key [of ticks cs] by simp
  then have "\<forall>s\<in>set ss. sorted (map ticks s)" using sorted_concat_member by blast
  with ss dr show ?thesis by auto
qed

text \<open>
  C1, as the code has it. For a habit with a non-empty completion list of one kind
  (all dates or all datetimes) and period \<^verbatim>\<open>'daily'\<close> or \<^verbatim>\<open>'weekly'\<close>,
  \<^verbatim>\<open>track_streaks\<close> returns streaks whose concatenation is the completion list sorted
  ascending, duplicates kept: every entry of the list is in exactly one streak, and
  the concatenation is the normalized (sorted, de-duplicated) set whenever the list
  has no duplicates. No streak is empty, each is sorted ascending, and consecutive
  streaks are more than the threshold apart (1 day for daily, 7 for weekly).
\<close>

theorem streaks_partition_sorted_completions:
  assumes "completions h \<noteq> []"
    and "homogeneous (completions h)"
    and "period h = ''daily'' \<or> period h = ''weekly''"
  shows "\<exists>ss h'. track_streaks h = Inr (ss, h')
           \<and> concat ss = sort_key ticks (completions h)
           \<and> mset (concat ss) = mset (completions h)
           \<and> (distinct (completions h) \<longrightarrow> concat ss = normalized (completions h))
           \<and> (\<forall>s\<in>set ss. s \<noteq> [] \<and> sorted (map ticks s))
           \<and> separated (if period h = ''daily'' then 1 else 7) ss"
proof -
  let ?thr = "if period h = ''daily'' then 1 else 7 :: int"
  from track_partition_aux [OF assms(1,2), of ?thr]
  obtain d rest ss where a: "sort_key ticks (completions h) = d # rest"
    "streak_loop ?thr d rest [] [d] = Inr ss"
    "concat ss = sort_key ticks (completions h)"
    "\<forall>s\<in>set ss. s \<noteq> [] \<and> sorted (map ticks s)"
    "separated ?thr ss" by blast
  have tr: "\<exists>h'. track_streaks h = Inr (ss, h')"
    using assms a(1,2)
    by (auto simp: track_streaks_def track_daily_streaks_def track_weekly_streaks_def py_sorted_def)
  have m: "mset (concat ss) = mset (completions h)" using a(3) by simp
  have n: "distinct (completions h) \<longrightarrow> concat ss = normalized (completions h)"
    using a(3) by (simp add: normalized_def distinct_remdups_id)
  from tr a(3,4,5) m n show ?thesis by blast
qed

theorem streaks_partition_sorted_completions_witness:
  "completions \<lparr>name = ''Run'', period = ''weekly'', creation_time = '''',
      completions = [PyDate 738655, PyDate 738641, PyDate 738648, PyDate 738700]\<rparr> \<noteq> []
   \<and> homogeneous [PyDate 738655, PyDate 738641, PyDate 738648, PyDate 738700]
   \<and> (\<exists>ss h'. track_streaks \<lparr>name = ''Run'', period = ''weekly'', creation_time = '''',
          completions = [PyDate 738655, PyDate 738641, PyDate 738648, PyDate 738700]\<rparr> = Inr (ss, h')
        \<and> concat ss = sort_key ticks [PyDate 738655, PyDate 738641, PyDate 738648, PyDate 738700]
        \<and> mset (concat ss) = mset [PyDate 738655, PyDate 738641, PyDate 738648, PyDate 738700]
        \<and> concat ss = normalized [PyDate 738655, PyDate 738641, PyDate 738648, PyDate 738700]
        \<and> (\<forall>s\<in>set ss. s \<noteq> [] \<and> sorted (map ticks s))
        \<and> separated 7 ss)"
  using streaks_partition_sorted_completions
    [of "\<lparr>name = ''Run'', period = ''weekly'', creation_time = '''',
          completions = [PyDate 738655, PyDate 738641, PyDate 738648, PyDate 738700]\<rparr>"]
  by (simp add: homogeneous_def is_date_def)

text \<open>
  The claim as the specification words it fails on a list with a repeated entry, which
  \<^verbatim>\<open>from_dict\<close> builds from a file that names a day twice: the streaks keep both
  entries, the normalized set has one.
\<close>

theorem streaks_keep_duplicates_counterexample:
  "track_streaks \<lparr>name = ''Reading'', period = ''daily'', creation_time = '''',
      completions = [PyDate 738641, PyDate 738641]\<rparr>
     = Inr ([[PyDate 738641, PyDate 738641]],
            \<lparr>name = ''Reading'', period = ''daily'', creation_time = '''',
             completions = [PyDate 738641, PyDate 738641]\<rparr>)
   \<and> concat [[PyDate 738641, PyDate 738641]] \<noteq> normalized [PyDate 738641, PyDate 738641]"
  by (simp add: track_streaks_def track_daily_streaks_def py_sorted_def homogeneous_def
      is_date_def ticks_def days_def us_per_day_def normalized_def)

subsection \<open>Runs of consecutive days, \<^verbatim>\<open>get_streak\<close> and \<^verbatim>\<open>longest_run_streak\<close>\<close>


lemma is_date_plus_days [simp]: "is_date (plus_days c k) = is_date c"
  by (cases c) (simp_all add: is_date_def)

lemma plus_days_plus_days [simp]: "plus_days (plus_days c j) k = plus_days c (j + k)"
  by (cases c) (simp_all add: timedelta_days_def algebra_simps)

lemma plus_days_0 [simp]: "plus_days c 0 = c"
  by (cases c) (simp_all add: timedelta_days_def)


lemma days_timedelta_days [simp]: "days (timedelta_days k) = k"
  by (simp add: days_def timedelta_days_def us_per_day_def)









lemma streak_loop_chained:
  "chained thr (prev # rest) \<Longrightarrow> streak_loop thr prev rest streaks cur = Inr (streaks @ [cur @ rest])"
proof (induction rest arbitrary: prev cur)
  case Nil
  show ?case by simp
next
  case (Cons c rest)
  then show ?case by (auto split: sum.splits)
qed








lemma get_streak_at_most_one:
  assumes "length (completions h) \<le> 1"
  shows "get_streak h = Inr 0"
proof (cases "completions h")
  case Nil
  then show ?thesis by (simp add: get_streak_def py_sorted_def homogeneous_def)
next
  case (Cons c cs)
  with assms have "completions h = [c]" by simp
  then show ?thesis by (simp add: get_streak_def py_sorted_def homogeneous_def)
qed


lemma get_streak_loop_total:
  "\<forall>x\<in>set rest. is_date x = is_date prev \<Longrightarrow>
     \<exists>v. get_streak_loop gap prev rest streak max_streak = Inr v"
proof (induction rest arbitrary: prev streak max_streak)
  case Nil
  show ?case by simp
next
  case (Cons c rest)
  from Cons.prems have kind: "is_date c = is_date prev"
    and rest: "\<forall>x\<in>set rest. is_date x = is_date c" by simp_all
  from py_sub_same_kind [OF kind] obtain td where "py_sub c prev = Inr td" by blast
  then show ?case using Cons.IH [OF rest] by simp
qed

lemma get_streak_total:
  assumes "homogeneous (completions h)"
  shows "\<exists>v. get_streak h = Inr v"
proof (cases "sort_key ticks (completions h)")
  case Nil
  with assms show ?thesis by (simp add: get_streak_def py_sorted_def)
next
  case (Cons d rest)
  from assms have "homogeneous (d # rest)"
    using homogeneous_sort_key [of ticks "completions h"] Cons by simp
  then have "\<forall>x\<in>set rest. is_date x = is_date d" by (simp add: homogeneous_Cons)
  from get_streak_loop_total [OF this] assms Cons show ?thesis
    by (simp add: get_streak_def py_sorted_def)
qed

lemma max_loop_first_max:
  assumes "\<forall>x\<in>set xs. key x = Inr (f x)"
  shows "\<exists>m'. max_loop key m mv xs = Inr m' \<and>
           ((m' = m \<and> (\<forall>x\<in>set xs. f x \<le> mv)) \<or>
            (\<exists>i<length xs. m' = xs ! i \<and> mv < f (xs ! i)
               \<and> (\<forall>j<length xs. f (xs ! j) \<le> f (xs ! i))
               \<and> (\<forall>j<i. f (xs ! j) < f (xs ! i))))"
  using assms
proof (induction xs arbitrary: m mv)
  case Nil
  show ?case by simp
next
  case (Cons x xs)
  from Cons.prems have kx: "key x = Inr (f x)" and rest: "\<forall>y\<in>set xs. key y = Inr (f y)"
    by simp_all
  show ?case
  proof (cases "mv < f x")
    case True
    from Cons.IH [OF rest, of x "f x"] obtain m' where
      m': "max_loop key x (f x) xs = Inr m'"
      and alt: "(m' = x \<and> (\<forall>y\<in>set xs. f y \<le> f x)) \<or>
            (\<exists>i<length xs. m' = xs ! i \<and> f x < f (xs ! i)
               \<and> (\<forall>j<length xs. f (xs ! j) \<le> f (xs ! i))
               \<and> (\<forall>j<i. f (xs ! j) < f (xs ! i)))" by blast
    have res: "max_loop key m mv (x # xs) = Inr m'" using kx True m' by simp
    from alt show ?thesis
    proof
      assume a: "m' = x \<and> (\<forall>y\<in>set xs. f y \<le> f x)"
      have "0 < length (x # xs) \<and> m' = (x # xs) ! 0 \<and> mv < f ((x # xs) ! 0)
            \<and> (\<forall>j<length (x # xs). f ((x # xs) ! j) \<le> f ((x # xs) ! 0))
            \<and> (\<forall>j<0. f ((x # xs) ! j) < f ((x # xs) ! 0))"
        using a True by (auto simp: nth_Cons split: nat.splits)
      with res show ?thesis by blast
    next
      assume "\<exists>i<length xs. m' = xs ! i \<and> f x < f (xs ! i)
               \<and> (\<forall>j<length xs. f (xs ! j) \<le> f (xs ! i))
               \<and> (\<forall>j<i. f (xs ! j) < f (xs ! i))"
      then obtain i where i: "i < length xs" "m' = xs ! i" "f x < f (xs ! i)"
        "\<forall>j<length xs. f (xs ! j) \<le> f (xs ! i)" "\<forall>j<i. f (xs ! j) < f (xs ! i)" by blast
      have "Suc i < length (x # xs) \<and> m' = (x # xs) ! Suc i \<and> mv < f ((x # xs) ! Suc i)
            \<and> (\<forall>j<length (x # xs). f ((x # xs) ! j) \<le> f ((x # xs) ! Suc i))
            \<and> (\<forall>j<Suc i. f ((x # xs) ! j) < f ((x # xs) ! Suc i))"
        using i True by (auto simp: nth_Cons split: nat.splits)
      with res show ?thesis by blast
    qed
  next
    case False
    from Cons.IH [OF rest, of m mv] obtain m' where
      m': "max_loop key m mv xs = Inr m'"
      and alt: "(m' = m \<and> (\<forall>y\<in>set xs. f y \<le> mv)) \<or>
            (\<exists>i<length xs. m' = xs ! i \<and> mv < f (xs ! i)
               \<and> (\<forall>j<length xs. f (xs ! j) \<le> f (xs ! i))
               \<and> (\<forall>j<i. f (xs ! j) < f (xs ! i)))" by blast
    have res: "max_loop key m mv (x # xs) = Inr m'" using kx False m' by simp
    from alt show ?thesis
    proof
      assume "m' = m \<and> (\<forall>y\<in>set xs. f y \<le> mv)"
      with res False show ?thesis by auto
    next
      assume "\<exists>i<length xs. m' = xs ! i \<and> mv < f (xs ! i)
               \<and> (\<forall>j<length xs. f (xs ! j) \<le> f (xs ! i))
               \<and> (\<forall>j<i. f (xs ! j) < f (xs ! i))"
      then obtain i where i: "i < length xs" "m' = xs ! i" "mv < f (xs ! i)"
        "\<forall>j<length xs. f (xs ! j) \<le> f (xs ! i)" "\<forall>j<i. f (xs ! j) < f (xs ! i)" by blast
      have "Suc i < length (x # xs) \<and> m' = (x # xs) ! Suc i \<and> mv < f ((x # xs) ! Suc i)
            \<and> (\<forall>j<length (x # xs). f ((x # xs) ! j) \<le> f ((x # xs) ! Suc i))
            \<and> (\<forall>j<Suc i. f ((x # xs) ! j) < f ((x # xs) ! Suc i))"
        using i False by (auto simp: nth_Cons split: nat.splits)
      with res show ?thesis by blast
    qed
  qed
qed

lemma py_max_first_max:
  assumes "xs \<noteq> []" and "\<forall>x\<in>set xs. key x = Inr (f x)"
  shows "\<exists>i<length xs. py_max key xs = Inr (Some (xs ! i))
           \<and> (\<forall>j<length xs. f (xs ! j) \<le> f (xs ! i))
           \<and> (\<forall>j<i. f (xs ! j) < f (xs ! i))"
proof -
  from assms(1) obtain x rest where xs: "xs = x # rest" by (cases xs) auto
  with assms(2) have kx: "key x = Inr (f x)" and rest: "\<forall>y\<in>set rest. key y = Inr (f y)"
    by simp_all
  from max_loop_first_max [OF rest, of x "f x"] obtain m' where
    m': "max_loop key x (f x) rest = Inr m'"
    and alt: "(m' = x \<and> (\<forall>y\<in>set rest. f y \<le> f x)) \<or>
          (\<exists>i<length rest. m' = rest ! i \<and> f x < f (rest ! i)
             \<and> (\<forall>j<length rest. f (rest ! j) \<le> f (rest ! i))
             \<and> (\<forall>j<i. f (rest ! j) < f (rest ! i)))" by blast
  have res: "py_max key xs = Inr (Some m')" using xs kx m' by (simp add: py_max_def)
  from alt show ?thesis
  proof
    assume a: "m' = x \<and> (\<forall>y\<in>set rest. f y \<le> f x)"
    have "0 < length xs \<and> m' = xs ! 0
          \<and> (\<forall>j<length xs. f (xs ! j) \<le> f (xs ! 0))
          \<and> (\<forall>j<0. f (xs ! j) < f (xs ! 0))"
      using a xs by (auto simp: nth_Cons split: nat.splits)
    with res show ?thesis by blast
  next
    assume "\<exists>i<length rest. m' = rest ! i \<and> f x < f (rest ! i)
             \<and> (\<forall>j<length rest. f (rest ! j) \<le> f (rest ! i))
             \<and> (\<forall>j<i. f (rest ! j) < f (rest ! i))"
    then obtain i where i: "i < length rest" "m' = rest ! i" "f x < f (rest ! i)"
      "\<forall>j<length rest. f (rest ! j) \<le> f (rest ! i)" "\<forall>j<i. f (rest ! j) < f (rest ! i)" by blast
    have "Suc i < length xs \<and> m' = xs ! Suc i
          \<and> (\<forall>j<length xs. f (xs ! j) \<le> f (xs ! Suc i))
          \<and> (\<forall>j<Suc i. f (xs ! j) < f (xs ! Suc i))"
      using i xs by (auto simp: nth_Cons split: nat.splits)
    with res show ?thesis by blast
  qed
qed

lemma longest_run_streak_first_max:
  assumes "habits t \<noteq> []" and "\<forall>x\<in>set (habits t). get_streak x = Inr (f x)"
  shows "\<exists>i<length (habits t). longest_run_streak t = Inr (name (habits t ! i))
           \<and> (\<forall>j<length (habits t). f (habits t ! j) \<le> f (habits t ! i))
           \<and> (\<forall>j<i. f (habits t ! j) < f (habits t ! i))"
proof -
  from py_max_first_max [OF assms] obtain i where
    "i < length (habits t)" "py_max get_streak (habits t) = Inr (Some (habits t ! i))"
    "\<forall>j<length (habits t). f (habits t ! j) \<le> f (habits t ! i)"
    "\<forall>j<i. f (habits t ! j) < f (habits t ! i)" by blast
  then show ?thesis by (auto simp: longest_run_streak_def)
qed

text \<open>
  Completions on consecutive calendar days: sorting orders them by day, neighbours are
  at most one whole day apart, and the span in whole days from the first to the last
  depends on their times of day.
\<close>

lemma div_mod_decomp:
  fixes k q r :: int
  assumes "0 \<le> r" "r < k"
  shows "(k * q + r) div k = q" and "(k * q + r) mod k = r"
  using assms by simp_all

lemma day_of_mono:
  "is_date a = is_date b \<Longrightarrow> ticks a \<le> ticks b \<Longrightarrow> day_of a \<le> day_of b"
  by (cases a; cases b) (simp_all add: is_date_def ticks_def date_of_def us_per_day_def zdiv_mono1)

lemma sorted_day_of:
  "homogeneous ds \<Longrightarrow> sorted (map ticks ds) \<Longrightarrow> sorted (map day_of ds)"
proof (induction ds)
  case Nil
  show ?case by simp
next
  case (Cons d ds)
  from Cons.prems(1) have k: "\<forall>x\<in>set ds. is_date x = is_date d" by (simp add: homogeneous_Cons)
  then have hom: "homogeneous ds"
    by (cases "is_date d") (auto simp: homogeneous_def list_all_iff)
  from Cons.prems(2) have "\<forall>x\<in>set ds. ticks d \<le> ticks x" and s: "sorted (map ticks ds)" by simp_all
  with k have "\<forall>x\<in>set ds. day_of d \<le> day_of x" using day_of_mono by metis
  with Cons.IH [OF hom s] show ?case by simp
qed

lemma day_of_sorted_completions:
  assumes "homogeneous cs" and "mset (map day_of cs) = mset ks" and "sorted ks"
  shows "map day_of (sort_key ticks cs) = ks"
proof -
  have "sorted (map day_of (sort_key ticks cs))"
    using assms(1) by (intro sorted_day_of) (simp_all add: homogeneous_sort_key)
  moreover have "mset (map day_of (sort_key ticks cs)) = mset ks"
    using assms(2) by simp
  ultimately have "sort ks = map day_of (sort_key ticks cs)"
    by (intro properties_for_sort) simp_all
  with assms(3) show ?thesis by (simp add: sorted_sort_id)
qed

lemma next_day_within_one_day:
  assumes "is_date a = is_date b" and "day_of b = day_of a + 1"
  shows "\<exists>td. py_sub b a = Inr td \<and> days td \<le> 1"
proof (cases a)
  case (PyDate x)
  with assms obtain y where "b = PyDate y" "y = x + 1" by (cases b) (auto simp: is_date_def)
  with PyDate show ?thesis by (simp add: days_def us_per_day_def)
next
  case (PyDatetime s)
  with assms obtain t where b: "b = PyDatetime t" "t div 86400000000 = s div 86400000000 + 1"
    by (cases b) (auto simp: is_date_def date_of_def us_per_day_def)
  from b(2) have "t - s < 2 * 86400000000" by linarith
  then have "(t - s) div 86400000000 \<le> 1" by linarith
  with PyDatetime b(1) show ?thesis by (simp add: days_def us_per_day_def)
qed

lemma span_of_days:
  assumes "is_date a = is_date b" and "day_of b = day_of a + j"
  shows "\<exists>td. py_sub b a = Inr td
           \<and> days td + 1 = (if time_of_day a \<le> time_of_day b then j + 1 else j)"
proof (cases a)
  case (PyDate x)
  with assms obtain y where "b = PyDate y" "y = x + j" by (cases b) (auto simp: is_date_def)
  with PyDate show ?thesis by (simp add: days_def us_per_day_def)
next
  case (PyDatetime s)
  with assms obtain t where b: "b = PyDatetime t" "t div 86400000000 = s div 86400000000 + j"
    by (cases b) (auto simp: is_date_def date_of_def us_per_day_def)
  define q ms mt where "q = s div 86400000000" and "ms = s mod 86400000000"
    and "mt = t mod 86400000000"
  have s: "s = 86400000000 * q + ms" by (simp add: q_def ms_def)
  have "t = 86400000000 * (t div 86400000000) + mt" by (simp add: mt_def)
  then have t: "t = 86400000000 * (q + j) + mt" unfolding b(2) q_def .
  have ms: "0 \<le> ms" "ms < 86400000000" by (simp_all add: ms_def)
  have mt: "0 \<le> mt" "mt < 86400000000" by (simp_all add: mt_def)
  have "(t - s) div 86400000000 = (if ms \<le> mt then j else j - 1)"
  proof (cases "ms \<le> mt")
    case True
    have "t - s = 86400000000 * j + (mt - ms)"
      unfolding s t by (simp add: algebra_simps)
    moreover have "(86400000000 * j + (mt - ms)) div 86400000000 = j"
      using True ms mt by (intro div_mod_decomp(1)) simp_all
    ultimately show ?thesis using True by simp
  next
    case False
    have "t - s = 86400000000 * (j - 1) + (86400000000 + mt - ms)"
      unfolding s t by (simp add: algebra_simps)
    moreover have "(86400000000 * (j - 1) + (86400000000 + mt - ms)) div 86400000000 = j - 1"
      using False ms mt by (intro div_mod_decomp(1)) simp_all
    ultimately show ?thesis using False by simp
  qed
  then have "(t - s) div 86400000000
      = (if s mod 86400000000 \<le> t mod 86400000000 then j else j - 1)"
    by (simp add: ms_def mt_def)
  with PyDatetime b(1) show ?thesis by (simp add: days_def us_per_day_def)
qed

lemma six_calendar_days_sorted:
  assumes hom: "homogeneous cs"
    and days: "mset (map day_of cs) = mset [k, k + 1, k + 2, k + 3, k + 4, k + 5]"
  shows "\<exists>d0 d1 d2 d3 d4 d5. sort_key ticks cs = [d0, d1, d2, d3, d4, d5]
           \<and> day_of d0 = k \<and> day_of d1 = k + 1 \<and> day_of d2 = k + 2 \<and> day_of d3 = k + 3
           \<and> day_of d4 = k + 4 \<and> day_of d5 = k + 5
           \<and> is_date d1 = is_date d0 \<and> is_date d2 = is_date d0 \<and> is_date d3 = is_date d0
           \<and> is_date d4 = is_date d0 \<and> is_date d5 = is_date d0"
proof -
  have "map day_of (sort_key ticks cs) = [k, k + 1, k + 2, k + 3, k + 4, k + 5]"
    using hom days by (rule day_of_sorted_completions) simp
  then obtain d0 d1 d2 d3 d4 d5 where ds: "sort_key ticks cs = [d0, d1, d2, d3, d4, d5]"
    and d: "day_of d0 = k" "day_of d1 = k + 1" "day_of d2 = k + 2" "day_of d3 = k + 3"
      "day_of d4 = k + 4" "day_of d5 = k + 5"
    by (auto simp: map_eq_Cons_conv)
  from hom have "homogeneous [d0, d1, d2, d3, d4, d5]"
    using homogeneous_sort_key [of ticks cs] ds by simp
  then have "is_date d1 = is_date d0" "is_date d2 = is_date d0" "is_date d3 = is_date d0"
    "is_date d4 = is_date d0" "is_date d5 = is_date d0"
    by (simp_all add: homogeneous_Cons)
  with ds d show ?thesis by blast
qed

text \<open>
  C3, as the code has it. A daily habit whose completions fall one on each of six
  consecutive calendar days (in any order). When they are all dates or all datetimes,
  \<^verbatim>\<open>track_streaks\<close> returns exactly one streak, the sorted list, and the average,
  longest and shortest streak duration are all \<^verbatim>\<open>(last - first).days + 1\<close>: this is 6
  when the last completion's time of day is not earlier than the first's, in
  particular for dates, and 5 otherwise. When dates and datetimes are mixed,
  \<^verbatim>\<open>track_streaks\<close> and the three metrics raise \<^verbatim>\<open>TypeError\<close>.
\<close>

theorem six_calendar_days_one_streak:
  assumes "period h = ''daily''"
    and "mset (map day_of (completions h)) = mset [k, k + 1, k + 2, k + 3, k + 4, k + 5]"
  shows "if homogeneous (completions h)
         then (let s = sort_key ticks (completions h);
                   v = (if time_of_day (hd s) \<le> time_of_day (last s) then 6 else 5)
               in track_streaks h = Inr ([s], h)
                \<and> calculate_average_streak_duration h = Inr (of_int v, h)
                \<and> find_longest_streak h = Inr (v, h)
                \<and> find_shortest_streak h = Inr (v, h)
                \<and> (is_date (hd s) \<longrightarrow> v = 6))
         else track_streaks h = Inl TypeError
            \<and> calculate_average_streak_duration h = Inl TypeError
            \<and> find_longest_streak h = Inl TypeError
            \<and> find_shortest_streak h = Inl TypeError"
proof (cases "homogeneous (completions h)")
  case hom: True
  from six_calendar_days_sorted [OF hom assms(2)] obtain d0 d1 d2 d3 d4 d5 where
    ds: "sort_key ticks (completions h) = [d0, d1, d2, d3, d4, d5]"
    and d: "day_of d0 = k" "day_of d1 = k + 1" "day_of d2 = k + 2" "day_of d3 = k + 3"
      "day_of d4 = k + 4" "day_of d5 = k + 5"
    and kind: "is_date d1 = is_date d0" "is_date d2 = is_date d0" "is_date d3 = is_date d0"
      "is_date d4 = is_date d0" "is_date d5 = is_date d0"
    by blast
  let ?s = "[d0, d1, d2, d3, d4, d5]"
  let ?v = "if time_of_day d0 \<le> time_of_day d5 then 6 else 5 :: int"
  have ne: "completions h \<noteq> []" using assms(2) by auto
  have step: "\<exists>td. py_sub b a = Inr td \<and> days td \<le> 1"
    if "is_date a = is_date b" "day_of b = day_of a + 1" for a b
    using that by (rule next_day_within_one_day)
  have ch: "chained 1 ?s"
    using step [of d0 d1] step [of d1 d2] step [of d2 d3] step [of d3 d4] step [of d4 d5] d kind
    by auto
  then have "streak_loop 1 d0 [d1, d2, d3, d4, d5] [] [d0] = Inr ([] @ [[d0] @ [d1, d2, d3, d4, d5]])"
    by (rule streak_loop_chained)
  with ne ds assms(1) hom have t: "track_streaks h = Inr ([?s], h)"
    by (simp add: track_streaks_def track_daily_streaks_def py_sorted_def)
  from span_of_days [of d0 d5 5] d kind obtain td where
    "py_sub d5 d0 = Inr td" "days td + 1 = ?v" by auto
  then have dur: "calculate_streak_duration ?s = Inr ?v"
    by (simp add: calculate_streak_duration_def)
  have avg: "calculate_average_streak_duration h = Inr (of_int ?v, h)"
    unfolding calculate_average_streak_duration_def t using dur by simp
  have lng: "find_longest_streak h = Inr (?v, h)"
    unfolding find_longest_streak_def t using dur by (simp add: py_max_def)
  have sht: "find_shortest_streak h = Inr (?v, h)"
    unfolding find_shortest_streak_def t using dur by (simp add: py_min_def)
  have dt: "is_date d0 \<longrightarrow> ?v = 6"
    using kind(5) by (cases d0; cases d5) (simp_all add: is_date_def)
  have "let s = sort_key ticks (completions h);
            v = (if time_of_day (hd s) \<le> time_of_day (last s) then 6 else 5)
        in track_streaks h = Inr ([s], h)
         \<and> calculate_average_streak_duration h = Inr (of_int v, h)
         \<and> find_longest_streak h = Inr (v, h)
         \<and> find_shortest_streak h = Inr (v, h)
         \<and> (is_date (hd s) \<longrightarrow> v = 6)"
    unfolding Let_def ds using t avg lng sht dt by simp
  with hom show ?thesis by simp
next
  case mixed: False
  have ne: "completions h \<noteq> []" using assms(2) by auto
  with mixed assms(1) have t: "track_streaks h = Inl TypeError"
    by (simp add: track_streaks_def track_daily_streaks_def py_sorted_def)
  have avg: "calculate_average_streak_duration h = Inl TypeError"
    unfolding calculate_average_streak_duration_def t by simp
  have lng: "find_longest_streak h = Inl TypeError"
    unfolding find_longest_streak_def t by simp
  have sht: "find_shortest_streak h = Inl TypeError"
    unfolding find_shortest_streak_def t by simp
  from mixed t avg lng sht show ?thesis by simp
qed

theorem six_calendar_days_one_streak_witness:
  "track_streaks \<lparr>name = ''Test Habit'', period = ''daily'', creation_time = '''',
      completions = [PyDate 738643, PyDate 738641, PyDate 738646, PyDate 738642, PyDate 738645,
                     PyDate 738644]\<rparr>
     = Inr ([[PyDate 738641, PyDate 738642, PyDate 738643, PyDate 738644, PyDate 738645,
              PyDate 738646]],
            \<lparr>name = ''Test Habit'', period = ''daily'', creation_time = '''',
      completions = [PyDate 738643, PyDate 738641, PyDate 738646, PyDate 738642, PyDate 738645,
                     PyDate 738644]\<rparr>)
   \<and> calculate_average_streak_duration
       \<lparr>name = ''Test Habit'', period = ''daily'', creation_time = '''',
      completions = [PyDate 738643, PyDate 738641, PyDate 738646, PyDate 738642, PyDate 738645,
                     PyDate 738644]\<rparr>
     = Inr (6, \<lparr>name = ''Test Habit'', period = ''daily'', creation_time = '''',
      completions = [PyDate 738643, PyDate 738641, PyDate 738646, PyDate 738642, PyDate 738645,
                     PyDate 738644]\<rparr>)
   \<and> find_longest_streak
       \<lparr>name = ''Test Habit'', period = ''daily'', creation_time = '''',
      completions = [PyDate 738643, PyDate 738641, PyDate 738646, PyDate 738642, PyDate 738645,
                     PyDate 738644]\<rparr>
     = Inr (6, \<lparr>name = ''Test Habit'', period = ''daily'', creation_time = '''',
      completions = [PyDate 738643, PyDate 738641, PyDate 738646, PyDate 738642, PyDate 738645,
                     PyDate 738644]\<rparr>)
   \<and> find_shortest_streak
       \<lparr>name = ''Test Habit'', period = ''daily'', creation_time = '''',
      completions = [PyDate 738643, PyDate 738641, PyDate 738646, PyDate 738642, PyDate 738645,
                     PyDate 738644]\<rparr>
     = Inr (6, \<lparr>name = ''Test Habit'', period = ''daily'', creation_time = '''',
      completions = [PyDate 738643, PyDate 738641, PyDate 738646, PyDate 738642, PyDate 738645,
                     PyDate 738644]\<rparr>)
   \<and> find_longest_streak
       \<lparr>name = ''Test Habit'', period = ''daily'', creation_time = '''',
      completions = [PyDatetime 63818665200000000, PyDatetime 63818712000000000,
                     PyDatetime 63818798400000000, PyDatetime 63818884800000000,
                     PyDatetime 63818971200000000, PyDatetime 63819018000000000]\<rparr>
     = Inr (5, \<lparr>name = ''Test Habit'', period = ''daily'', creation_time = '''',
      completions = [PyDatetime 63818665200000000, PyDatetime 63818712000000000,
                     PyDatetime 63818798400000000, PyDatetime 63818884800000000,
                     PyDatetime 63818971200000000, PyDatetime 63819018000000000]\<rparr>)
   \<and> find_longest_streak
       \<lparr>name = ''Test Habit'', period = ''daily'', creation_time = '''',
      completions = [PyDatetime 63818665200000000, PyDate 738642, PyDate 738643, PyDate 738644,
                     PyDate 738645, PyDate 738646]\<rparr>
     = Inl TypeError"
proof -
  let ?h = "\<lparr>name = ''Test Habit'', period = ''daily'', creation_time = '''',
      completions = [PyDate 738643, PyDate 738641, PyDate 738646, PyDate 738642, PyDate 738645,
                     PyDate 738644]\<rparr>"
  let ?g = "\<lparr>name = ''Test Habit'', period = ''daily'', creation_time = '''',
      completions = [PyDatetime 63818665200000000, PyDatetime 63818712000000000,
                     PyDatetime 63818798400000000, PyDatetime 63818884800000000,
                     PyDatetime 63818971200000000, PyDatetime 63819018000000000]\<rparr>"
  let ?m = "\<lparr>name = ''Test Habit'', period = ''daily'', creation_time = '''',
      completions = [PyDatetime 63818665200000000, PyDate 738642, PyDate 738643, PyDate 738644,
                     PyDate 738645, PyDate 738646]\<rparr>"
  have a: "period ?h = ''daily''" by simp
  have b: "homogeneous (completions ?h)" by (simp add: homogeneous_def is_date_def)
  have c: "mset (map day_of (completions ?h))
             = mset [738641, 738641 + 1, 738641 + 2, 738641 + 3, 738641 + 4, 738641 + 5]"
    by simp
  have s: "sort_key ticks (completions ?h)
             = [PyDate 738641, PyDate 738642, PyDate 738643, PyDate 738644, PyDate 738645,
                PyDate 738646]"
    by (simp add: ticks_def)
  have 1: "track_streaks ?h = Inr ([[PyDate 738641, PyDate 738642, PyDate 738643, PyDate 738644,
              PyDate 738645, PyDate 738646]], ?h)
     \<and> calculate_average_streak_duration ?h = Inr (6, ?h)
     \<and> find_longest_streak ?h = Inr (6, ?h)
     \<and> find_shortest_streak ?h = Inr (6, ?h)"
    using six_calendar_days_one_streak [OF a c] b unfolding Let_def s by simp
  have a': "period ?g = ''daily''" by simp
  have b': "homogeneous (completions ?g)" by (simp add: homogeneous_def is_date_def)
  have c': "mset (map day_of (completions ?g))
             = mset [738641, 738641 + 1, 738641 + 2, 738641 + 3, 738641 + 4, 738641 + 5]"
    by (simp add: date_of_def us_per_day_def)
  have s': "sort_key ticks (completions ?g) = completions ?g"
    by (simp add: ticks_def)
  have 2: "find_longest_streak ?g = Inr (5, ?g)"
    using six_calendar_days_one_streak [OF a' c'] b' unfolding Let_def s'
    by (simp add: us_per_day_def)
  have a'': "period ?m = ''daily''" by simp
  have b'': "\<not> homogeneous (completions ?m)" by (simp add: homogeneous_def is_date_def)
  have c'': "mset (map day_of (completions ?m))
             = mset [738641, 738641 + 1, 738641 + 2, 738641 + 3, 738641 + 4, 738641 + 5]"
    by (simp add: date_of_def us_per_day_def)
  have 3: "find_longest_streak ?m = Inl TypeError"
    using six_calendar_days_one_streak [OF a'' c''] b'' by simp
  from 1 2 3 show ?thesis by (intro conjI) (rule conjunct1, assumption | simp)+
qed

text \<open>
  The claim as the specification words it fails on datetimes: the list of the unit
  test, \<^verbatim>\<open>[datetime.now() - timedelta(days=i) for i in range(6)]\<close> with the clock
  read anew for each element (here 7 microseconds later each time), lies on the six
  calendar days 2023-05-01 to 2023-05-06 and forms one streak, but from the first to
  the last completion it is a few microseconds less than five days, so \<^verbatim>\<open>.days\<close> is 4
  and the three metrics are 5.
\<close>

theorem six_calendar_days_of_datetimes_counterexample:
  "map day_of [PyDatetime 63819059696123456, PyDatetime 63818973296123463,
               PyDatetime 63818886896123470, PyDatetime 63818800496123477,
               PyDatetime 63818714096123484, PyDatetime 63818627696123491]
     = [738646, 738645, 738644, 738643, 738642, 738641]
   \<and> calculate_average_streak_duration
       \<lparr>name = ''Test Habit'', period = ''daily'', creation_time = '''',
        completions = [PyDatetime 63819059696123456, PyDatetime 63818973296123463,
               PyDatetime 63818886896123470, PyDatetime 63818800496123477,
               PyDatetime 63818714096123484, PyDatetime 63818627696123491]\<rparr>
     = Inr (5, \<lparr>name = ''Test Habit'', period = ''daily'', creation_time = '''',
        completions = [PyDatetime 63819059696123456, PyDatetime 63818973296123463,
               PyDatetime 63818886896123470, PyDatetime 63818800496123477,
               PyDatetime 63818714096123484, PyDatetime 63818627696123491]\<rparr>)
   \<and> find_longest_streak
       \<lparr>name = ''Test Habit'', period = ''daily'', creation_time = '''',
        completions = [PyDatetime 63819059696123456, PyDatetime 63818973296123463,
               PyDatetime 63818886896123470, PyDatetime 63818800496123477,
               PyDatetime 63818714096123484, PyDatetime 63818627696123491]\<rparr>
     = Inr (5, \<lparr>name = ''Test Habit'', period = ''daily'', creation_time = '''',
        completions = [PyDatetime 63819059696123456, PyDatetime 63818973296123463,
               PyDatetime 63818886896123470, PyDatetime 63818800496123477,
               PyDatetime 63818714096123484, PyDatetime 63818627696123491]\<rparr>)
   \<and> find_shortest_streak
       \<lparr>name = ''Test Habit'', period = ''daily'', creation_time = '''',
        completions = [PyDatetime 63819059696123456, PyDatetime 63818973296123463,
               PyDatetime 63818886896123470, PyDatetime 63818800496123477,
               PyDatetime 63818714096123484, PyDatetime 63818627696123491]\<rparr>
     = Inr (5, \<lparr>name = ''Test Habit'', period = ''daily'', creation_time = '''',
        completions = [PyDatetime 63819059696123456, PyDatetime 63818973296123463,
               PyDatetime 63818886896123470, PyDatetime 63818800496123477,
               PyDatetime 63818714096123484, PyDatetime 63818627696123491]\<rparr>)"
proof -
  let ?h = "\<lparr>name = ''Test Habit'', period = ''daily'', creation_time = '''',
        completions = [PyDatetime 63819059696123456, PyDatetime 63818973296123463,
               PyDatetime 63818886896123470, PyDatetime 63818800496123477,
               PyDatetime 63818714096123484, PyDatetime 63818627696123491]\<rparr>"
  have t: "track_streaks ?h
      = Inr ([[PyDatetime 63818627696123491, PyDatetime 63818714096123484,
               PyDatetime 63818800496123477, PyDatetime 63818886896123470,
               PyDatetime 63818973296123463, PyDatetime 63819059696123456]], ?h)"
    by (simp add: track_streaks_def track_daily_streaks_def py_sorted_def homogeneous_def
        is_date_def ticks_def days_def us_per_day_def)
  have d: "calculate_streak_duration [PyDatetime 63818627696123491, PyDatetime 63818714096123484,
               PyDatetime 63818800496123477, PyDatetime 63818886896123470,
               PyDatetime 63818973296123463, PyDatetime 63819059696123456] = Inr 5"
    by (simp add: calculate_streak_duration_def days_def us_per_day_def)
  have 1: "map day_of [PyDatetime 63819059696123456, PyDatetime 63818973296123463,
               PyDatetime 63818886896123470, PyDatetime 63818800496123477,
               PyDatetime 63818714096123484, PyDatetime 63818627696123491]
     = [738646, 738645, 738644, 738643, 738642, 738641]"
    by (simp add: date_of_def us_per_day_def)
  have 2: "calculate_average_streak_duration ?h = Inr (5, ?h)"
    unfolding calculate_average_streak_duration_def t using d by simp
  have 3: "find_longest_streak ?h = Inr (5, ?h)"
    unfolding find_longest_streak_def t using d by (simp add: py_max_def)
  have 4: "find_shortest_streak ?h = Inr (5, ?h)"
    unfolding find_shortest_streak_def t using d by (simp add: py_min_def)
  show ?thesis by (intro conjI) (rule 1 2 3 4)+
qed




text \<open>\<^verbatim>\<open>get_streak\<close> returns the greatest number of transitions in a run of the sorted list.\<close>

lemma gap_runs_Cons_shape:
  "\<exists>r rs. gap_runs gap (a # ds) = (a # r) # rs"
proof (induction ds arbitrary: a)
  case Nil
  show ?case by simp
next
  case (Cons b ds)
  from Cons.IH [of b] obtain r rs where "gap_runs gap (b # ds) = (b # r) # rs" by blast
  then show ?case by simp
qed

lemma concat_gap_runs: "concat (gap_runs gap ds) = ds"
proof (induction gap ds rule: gap_runs.induct)
  case (3 gap a b rest)
  from gap_runs_Cons_shape [of gap b rest] obtain r rs where
    "gap_runs gap (b # rest) = (b # r) # rs" by blast
  with 3 show ?case by (auto split: sum.splits)
qed simp_all

lemma gap_runs_within_gap: "r \<in> set (gap_runs gap ds) \<Longrightarrow> r \<noteq> [] \<and> within_gap gap r"
proof (induction gap ds arbitrary: r rule: gap_runs.induct)
  case (3 gap a b rest)
  from gap_runs_Cons_shape [of gap b rest] obtain r' rs where
    shape: "gap_runs gap (b # rest) = (b # r') # rs" by blast
  show ?case
  proof (cases "case py_sub b a of Inl e \<Rightarrow> False | Inr td \<Rightarrow> td \<le> gap")
    case True
    with "3.prems" shape have "r = a # b # r' \<or> r \<in> set rs" by simp
    then show ?thesis
    proof
      assume r: "r = a # b # r'"
      from "3.IH"(1) [OF True, of "b # r'"] shape have "within_gap gap (b # r')" by simp
      with r True show ?thesis by simp
    next
      assume "r \<in> set rs"
      with "3.IH"(1) [OF True, of r] shape show ?thesis by simp
    qed
  next
    case False
    with "3.prems" have "r = [a] \<or> r \<in> set (gap_runs gap (b # rest))" by simp
    with "3.IH"(2) [OF False, of r] show ?thesis by auto
  qed
qed simp_all





text \<open>A list that mixes dates and datetimes cannot be sorted: \<^verbatim>\<open>TypeError\<close>.\<close>

lemma get_streak_mixed:
  "\<not> homogeneous (completions h) \<Longrightarrow> get_streak h = Inl TypeError"
  by (simp add: get_streak_def py_sorted_def)

lemma max_loop_error:
  assumes "\<exists>x\<in>set xs. key x = Inl E"
    and "\<forall>x\<in>set xs. key x = Inl E \<or> (\<exists>v. key x = Inr v)"
  shows "max_loop key m mv xs = Inl E"
  using assms
proof (induction xs arbitrary: m mv)
  case Nil
  then show ?case by simp
next
  case (Cons x xs)
  show ?case
  proof (cases "key x")
    case (Inl e)
    with Cons.prems(2) have "e = E" by auto
    with Inl show ?thesis by simp
  next
    case (Inr v)
    with Cons.prems(1) have ex: "\<exists>y\<in>set xs. key y = Inl E" by auto
    from Cons.prems(2) have all: "\<forall>y\<in>set xs. key y = Inl E \<or> (\<exists>v. key y = Inr v)" by simp
    from Cons.IH [OF ex all] Inr show ?thesis by simp
  qed
qed

lemma py_max_error:
  assumes "\<exists>x\<in>set xs. key x = Inl E"
    and "\<forall>x\<in>set xs. key x = Inl E \<or> (\<exists>v. key x = Inr v)"
  shows "py_max key xs = Inl E"
proof (cases xs)
  case Nil
  with assms(1) show ?thesis by simp
next
  case (Cons x rest)
  show ?thesis
  proof (cases "key x")
    case (Inl e)
    with assms(2) Cons have "e = E" by auto
    with Inl Cons show ?thesis by (simp add: py_max_def)
  next
    case (Inr v)
    with assms(1) Cons have ex: "\<exists>y\<in>set rest. key y = Inl E" by auto
    from assms(2) Cons have all: "\<forall>y\<in>set rest. key y = Inl E \<or> (\<exists>v. key y = Inr v)" by simp
    from max_loop_error [OF ex all] Inr Cons show ?thesis by (simp add: py_max_def)
  qed
qed

lemma longest_run_streak_mixed:
  assumes "\<exists>x\<in>set (habits t). \<not> homogeneous (completions x)"
  shows "longest_run_streak t = Inl TypeError"
proof -
  have ex: "\<exists>x\<in>set (habits t). get_streak x = Inl TypeError"
    using assms get_streak_mixed by blast
  have all: "\<forall>x\<in>set (habits t). get_streak x = Inl TypeError \<or> (\<exists>v. get_streak x = Inr v)"
  proof
    fix x
    show "get_streak x = Inl TypeError \<or> (\<exists>v. get_streak x = Inr v)"
      using get_streak_mixed [of x] get_streak_total [of x] by blast
  qed
  from py_max_error [OF ex all] show ?thesis by (simp add: longest_run_streak_def)
qed






text \<open>
  C10, as the code has it. On a tracker without habits \<^verbatim>\<open>longest_run_streak\<close>
  raises \<^verbatim>\<open>ValueError\<close> (\<^verbatim>\<open>max\<close> of an empty sequence). On a tracker with habits
  whose completion lists are each of one kind it returns the name of the first
  habit, in insertion order, whose \<^verbatim>\<open>get_streak\<close> is the maximum: no habit has a
  greater value and every earlier habit has a smaller one. When no habit has a
  completion this is the first habit. When some habit's list mixes dates and
  datetimes it raises \<^verbatim>\<open>TypeError\<close>.
\<close>

theorem longest_run_streak_empty_and_ties:
  "(habits t0 = [] \<longrightarrow> longest_run_streak t0 = Inl ValueError)
   \<and> (habits t \<noteq> [] \<and> (\<forall>x\<in>set (habits t). homogeneous (completions x))
      \<longrightarrow> (\<exists>f. (\<forall>x\<in>set (habits t). get_streak x = Inr (f x))
            \<and> (\<exists>i<length (habits t). longest_run_streak t = Inr (name (habits t ! i))
                 \<and> (\<forall>j<length (habits t). f (habits t ! j) \<le> f (habits t ! i))
                 \<and> (\<forall>j<i. f (habits t ! j) < f (habits t ! i)))))
   \<and> (habits t1 \<noteq> [] \<and> (\<forall>x\<in>set (habits t1). completions x = [])
      \<longrightarrow> longest_run_streak t1 = Inr (name (hd (habits t1))))
   \<and> ((\<exists>x\<in>set (habits t2). \<not> homogeneous (completions x))
      \<longrightarrow> longest_run_streak t2 = Inl TypeError)"
proof (intro conjI impI)
  assume "habits t0 = []"
  then show "longest_run_streak t0 = Inl ValueError"
    by (simp add: longest_run_streak_def py_max_def)
next
  assume a: "habits t \<noteq> [] \<and> (\<forall>x\<in>set (habits t). homogeneous (completions x))"
  define f where "f x = projr (get_streak x)" for x
  have ok: "\<forall>x\<in>set (habits t). get_streak x = Inr (f x)"
  proof
    fix x assume "x \<in> set (habits t)"
    with a have "homogeneous (completions x)" by blast
    from get_streak_total [OF this] show "get_streak x = Inr (f x)" by (auto simp: f_def)
  qed
  from a have ne: "habits t \<noteq> []" by blast
  from longest_run_streak_first_max [OF ne ok] ok
  show "\<exists>f. (\<forall>x\<in>set (habits t). get_streak x = Inr (f x))
            \<and> (\<exists>i<length (habits t). longest_run_streak t = Inr (name (habits t ! i))
                 \<and> (\<forall>j<length (habits t). f (habits t ! j) \<le> f (habits t ! i))
                 \<and> (\<forall>j<i. f (habits t ! j) < f (habits t ! i)))"
    by blast
next
  assume a: "habits t1 \<noteq> [] \<and> (\<forall>x\<in>set (habits t1). completions x = [])"
  then have ok: "\<forall>x\<in>set (habits t1). get_streak x = Inr ((\<lambda>_. 0) x)"
    by (simp add: get_streak_at_most_one)
  from a have ne: "habits t1 \<noteq> []" by blast
  from longest_run_streak_first_max [OF ne ok] obtain i where
    i: "longest_run_streak t1 = Inr (name (habits t1 ! i))" "\<forall>j<i. (0::int) < 0" by blast
  from i(2) have "i = 0" by auto
  with i(1) ne show "longest_run_streak t1 = Inr (name (hd (habits t1)))"
    by (simp add: hd_conv_nth)
next
  assume "\<exists>x\<in>set (habits t2). \<not> homogeneous (completions x)"
  then show "longest_run_streak t2 = Inl TypeError" by (rule longest_run_streak_mixed)
qed

theorem longest_run_streak_empty_and_ties_witness:
  "longest_run_streak \<lparr>habits = []\<rparr> = Inl ValueError
   \<and> (\<exists>f. (\<forall>x\<in>set (habits \<lparr>habits =
               [\<lparr>name = ''Read'', period = ''daily'', creation_time = '''',
                  completions = [PyDate 738641, PyDate 738642]\<rparr>,
                \<lparr>name = ''Run'', period = ''weekly'', creation_time = '''',
                  completions = [PyDate 738641, PyDate 738648]\<rparr>]\<rparr>). get_streak x = Inr (f x))
        \<and> (\<exists>i<length (habits \<lparr>habits =
               [\<lparr>name = ''Read'', period = ''daily'', creation_time = '''',
                  completions = [PyDate 738641, PyDate 738642]\<rparr>,
                \<lparr>name = ''Run'', period = ''weekly'', creation_time = '''',
                  completions = [PyDate 738641, PyDate 738648]\<rparr>]\<rparr>).
              longest_run_streak \<lparr>habits =
               [\<lparr>name = ''Read'', period = ''daily'', creation_time = '''',
                  completions = [PyDate 738641, PyDate 738642]\<rparr>,
                \<lparr>name = ''Run'', period = ''weekly'', creation_time = '''',
                  completions = [PyDate 738641, PyDate 738648]\<rparr>]\<rparr>
               = Inr (name (habits \<lparr>habits =
               [\<lparr>name = ''Read'', period = ''daily'', creation_time = '''',
                  completions = [PyDate 738641, PyDate 738642]\<rparr>,
                \<lparr>name = ''Run'', period = ''weekly'', creation_time = '''',
                  completions = [PyDate 738641, PyDate 738648]\<rparr>]\<rparr> ! i))
              \<and> (\<forall>j<length (habits \<lparr>habits =
               [\<lparr>name = ''Read'', period = ''daily'', creation_time = '''',
                  completions = [PyDate 738641, PyDate 738642]\<rparr>,
                \<lparr>name = ''Run'', period = ''weekly'', creation_time = '''',
                  completions = [PyDate 738641, PyDate 738648]\<rparr>]\<rparr>).
                    f (habits \<lparr>habits =
               [\<lparr>name = ''Read'', period = ''daily'', creation_time = '''',
                  completions = [PyDate 738641, PyDate 738642]\<rparr>,
                \<lparr>name = ''Run'', period = ''weekly'', creation_time = '''',
                  completions = [PyDate 738641, PyDate 738648]\<rparr>]\<rparr> ! j)
                    \<le> f (habits \<lparr>habits =
               [\<lparr>name = ''Read'', period = ''daily'', creation_time = '''',
                  completions = [PyDate 738641, PyDate 738642]\<rparr>,
                \<lparr>name = ''Run'', period = ''weekly'', creation_time = '''',
                  completions = [PyDate 738641, PyDate 738648]\<rparr>]\<rparr> ! i))
              \<and> (\<forall>j<i. f (habits \<lparr>habits =
               [\<lparr>name = ''Read'', period = ''daily'', creation_time = '''',
                  completions = [PyDate 738641, PyDate 738642]\<rparr>,
                \<lparr>name = ''Run'', period = ''weekly'', creation_time = '''',
                  completions = [PyDate 738641, PyDate 738648]\<rparr>]\<rparr> ! j)
                    < f (habits \<lparr>habits =
               [\<lparr>name = ''Read'', period = ''daily'', creation_time = '''',
                  completions = [PyDate 738641, PyDate 738642]\<rparr>,
                \<lparr>name = ''Run'', period = ''weekly'', creation_time = '''',
                  completions = [PyDate 738641, PyDate 738648]\<rparr>]\<rparr> ! i))))
   \<and> longest_run_streak \<lparr>habits =
        [\<lparr>name = ''Read'', period = ''daily'', creation_time = '''', completions = []\<rparr>,
         \<lparr>name = ''Run'', period = ''weekly'', creation_time = '''', completions = []\<rparr>]\<rparr>
       = Inr ''Read''
   \<and> longest_run_streak \<lparr>habits =
        [\<lparr>name = ''Read'', period = ''daily'', creation_time = '''',
           completions = [PyDate 738641, PyDate 738642]\<rparr>,
         \<lparr>name = ''Run'', period = ''weekly'', creation_time = '''',
           completions = [PyDatetime 63818625600000000, PyDate 738641]\<rparr>]\<rparr>
       = Inl TypeError"
proof -
  let ?hs = "[\<lparr>name = ''Read'', period = ''daily'', creation_time = '''',
                  completions = [PyDate 738641, PyDate 738642]\<rparr>,
                \<lparr>name = ''Run'', period = ''weekly'', creation_time = '''',
                  completions = [PyDate 738641, PyDate 738648]\<rparr>]"
  let ?es = "[\<lparr>name = ''Read'', period = ''daily'', creation_time = '''', completions = []\<rparr>,
         \<lparr>name = ''Run'', period = ''weekly'', creation_time = '''', completions = []\<rparr>]"
  let ?ms = "[\<lparr>name = ''Read'', period = ''daily'', creation_time = '''',
           completions = [PyDate 738641, PyDate 738642]\<rparr>,
         \<lparr>name = ''Run'', period = ''weekly'', creation_time = '''',
           completions = [PyDatetime 63818625600000000, PyDate 738641]\<rparr>]"
  note inst = longest_run_streak_empty_and_ties
    [where ?t0.0 = "\<lparr>habits = []\<rparr>" and t = "\<lparr>habits = ?hs\<rparr>" and ?t1.0 = "\<lparr>habits = ?es\<rparr>"
       and ?t2.0 = "\<lparr>habits = ?ms\<rparr>"]
  have a: "habits \<lparr>habits = []\<rparr> = []" by simp
  have b: "habits \<lparr>habits = ?hs\<rparr> \<noteq> []
      \<and> (\<forall>x\<in>set (habits \<lparr>habits = ?hs\<rparr>). homogeneous (completions x))"
    by (simp add: homogeneous_def is_date_def)
  have c: "habits \<lparr>habits = ?es\<rparr> \<noteq> [] \<and> (\<forall>x\<in>set (habits \<lparr>habits = ?es\<rparr>). completions x = [])"
    by simp
  have d: "\<exists>x\<in>set (habits \<lparr>habits = ?ms\<rparr>). \<not> homogeneous (completions x)"
    by (simp add: homogeneous_def is_date_def)
  note 1 = inst [THEN conjunct1, THEN mp, OF a]
  note 2 = inst [THEN conjunct2, THEN conjunct1, THEN mp, OF b]
  have 3: "longest_run_streak \<lparr>habits = ?es\<rparr> = Inr ''Read''"
    using inst [THEN conjunct2, THEN conjunct2, THEN conjunct1, THEN mp, OF c] by simp
  note 4 = inst [THEN conjunct2, THEN conjunct2, THEN conjunct2, THEN mp, OF d]
  show ?thesis
    by (intro conjI) (rule 1 2 3 4)+
qed

text \<open>
  The claim as the specification words it fails on a tracker that is not empty: a
  habit completed once and then given example data holds a datetime and dates, its
  list cannot be sorted, and \<^verbatim>\<open>longest_run_streak\<close> raises \<^verbatim>\<open>TypeError\<close> instead of
  returning a name.
\<close>

theorem longest_run_streak_mixed_counterexample:
  "longest_run_streak \<lparr>habits =
      [\<lparr>name = ''Exercise'', period = ''daily'', creation_time = '''',
         completions = [PyDatetime 63818625600000000, PyDate 738641, PyDate 738643]\<rparr>]\<rparr>
     = Inl TypeError"
  by (simp add: longest_run_streak_def py_max_def get_streak_def py_sorted_def homogeneous_def
      is_date_def)

subsection \<open>What \<^verbatim>\<open>track_streaks\<close> does to the habit\<close>

lemma track_daily_streaks_keeps_habit:
  "track_daily_streaks h = Inr (ss, h') \<Longrightarrow> h' = h"
  by (auto simp: track_daily_streaks_def split: if_splits sum.splits list.splits)

lemma track_weekly_streaks_sorts_habit:
  "track_weekly_streaks h = Inr (ss, h') \<Longrightarrow>
     h' = h\<lparr>completions := sort_key ticks (completions h)\<rparr>"
  by (auto simp: track_weekly_streaks_def py_sorted_def split: if_splits sum.splits list.splits)

text \<open>
  C5 does not hold for the weekly path. \<^verbatim>\<open>_track_daily_streaks\<close> sorts a copy, but
  \<^verbatim>\<open>_track_weekly_streaks\<close> calls \<^verbatim>\<open>self.completions.sort()\<close>: for a weekly habit
  whose list is [2023-05-08, 2023-05-01], the list after the call is
  [2023-05-01, 2023-05-08].
\<close>

theorem weekly_track_streaks_reorders_completions:
  "track_streaks \<lparr>name = ''Run'', period = ''weekly'', creation_time = '''',
      completions = [PyDate 738648, PyDate 738641]\<rparr>
     = Inr ([[PyDate 738641, PyDate 738648]],
            \<lparr>name = ''Run'', period = ''weekly'', creation_time = '''',
             completions = [PyDate 738641, PyDate 738648]\<rparr>)
   \<and> [PyDate 738641, PyDate 738648] \<noteq> [PyDate 738648, PyDate 738641]"
  by (simp add: track_streaks_def track_weekly_streaks_def py_sorted_def homogeneous_def
      is_date_def ticks_def days_def us_per_day_def)

subsection \<open>\<^verbatim>\<open>complete\<close>\<close>

lemma any_same_day_datetimes:
  "list_all (\<lambda>c. \<not> is_date c) cs \<Longrightarrow>
     any_same_day today cs = Inr (\<exists>t. PyDatetime t \<in> set cs \<and> date_of t = today)"
proof (induction cs)
  case Nil
  show ?case by simp
next
  case (Cons c cs)
  then show ?case by (cases c) (auto simp: is_date_def)
qed

text \<open>
  On a habit that holds only datetimes, \<^verbatim>\<open>complete\<close> appends the current time unless
  a completion of the same day exists, and a second call on that day changes nothing.
\<close>

lemma complete_datetimes:
  assumes "list_all (\<lambda>c. \<not> is_date c) (completions h)"
  shows "complete now h =
           (if \<exists>t. PyDatetime t \<in> set (completions h) \<and> date_of t = date_of now
            then Inr ([''Habit already completed for today.''], h)
            else Inr ([], h\<lparr>completions := completions h @ [PyDatetime now]\<rparr>))"
  using any_same_day_datetimes [OF assms, of "date_of now"]
  by (cases "\<exists>t. PyDatetime t \<in> set (completions h) \<and> date_of t = date_of now")
    (simp_all add: complete_def)

lemma complete_twice_same_day:
  assumes "list_all (\<lambda>c. \<not> is_date c) (completions h)"
    and "complete now h = Inr (out, h')"
    and "date_of now' = date_of now"
  shows "complete now' h' = Inr ([''Habit already completed for today.''], h')"
proof -
  have dt: "list_all (\<lambda>c. \<not> is_date c) (completions h')"
    and ex: "\<exists>t. PyDatetime t \<in> set (completions h') \<and> date_of t = date_of now"
    using assms(1,2) unfolding complete_datetimes [OF assms(1)]
    by (auto simp: is_date_def split: if_splits)
  show ?thesis unfolding complete_datetimes [OF dt] using ex assms(3) by simp
qed

text \<open>
  C7 does not hold on a habit that holds dates, which is every habit loaded from the
  file or created with example data: \<^verbatim>\<open>completion.date()\<close> raises
  \<^verbatim>\<open>AttributeError\<close> on a \<^verbatim>\<open>date\<close>, so nothing is appended, at any time \<open>now\<close>.
\<close>

theorem complete_raises_on_date_completions:
  "complete now \<lparr>name = ''Exercise (with example data)'', period = ''daily'',
      creation_time = '''', completions = [PyDate 738641]\<rparr> = Inl AttributeError"
  by (simp add: complete_def)

subsection \<open>Saving and loading a habit\<close>

text \<open>Decimal digits and zero padding.\<close>

lemma digit_cases: "k < 10 \<Longrightarrow> k = 0 \<or> k = 1 \<or> k = 2 \<or> k = 3 \<or> k = 4 \<or> k = 5 \<or> k = 6 \<or> k = 7 \<or> k = 8 \<or> k = (9::nat)"
  by arith

lemma digit_char_props:
  assumes "k < 10"
  shows "is_digit (digit_char k)" and "digit_val (digit_char k) = int k"
    and "is_digit19 (digit_char k) \<longleftrightarrow> k \<noteq> 0"
    and "digit_char k = CHR ''0'' \<longleftrightarrow> k = 0"
    and "digit_char k = CHR ''1'' \<longleftrightarrow> k = 1"
    and "digit_char k = CHR ''2'' \<longleftrightarrow> k = 2"
    and "digit_char k = CHR ''3'' \<longleftrightarrow> k = 3"
    and "digit_char k \<noteq> CHR '' ''"
  using digit_cases [OF assms]
  by (auto simp: digit_char_def is_digit_def is_digit19_def digit_val_def)

lemma dec_digits_1: "n < 10 \<Longrightarrow> dec_digits n = [digit_char n]"
  by simp

lemma dec_digits_2: "10 \<le> n \<Longrightarrow> n < 100 \<Longrightarrow> dec_digits n = [digit_char (n div 10), digit_char (n mod 10)]"
  by (subst dec_digits.simps) (simp add: dec_digits_1)

lemma dec_digits_3: "100 \<le> n \<Longrightarrow> n < 1000 \<Longrightarrow>
  dec_digits n = [digit_char (n div 100), digit_char (n div 10 mod 10), digit_char (n mod 10)]"
  by (subst dec_digits.simps) (simp add: dec_digits_2 div_mult2_eq [symmetric] del: dec_digits.simps)

lemma dec_digits_4: "1000 \<le> n \<Longrightarrow> n < 10000 \<Longrightarrow>
  dec_digits n = [digit_char (n div 1000), digit_char (n div 100 mod 10), digit_char (n div 10 mod 10),
     digit_char (n mod 10)]"
  by (subst dec_digits.simps) (simp add: dec_digits_3 div_mult2_eq [symmetric] del: dec_digits.simps)

lemma replicate_small:
  "replicate 2 c = [c, c]" "replicate 3 c = [c, c, c]"
  by (simp_all add: numeral_2_eq_2 numeral_3_eq_3)

lemma zero_padded_2:
  assumes "0 \<le> m" "m < 100"
  shows "zero_padded 2 m = [digit_char (nat m div 10), digit_char (nat m mod 10)]"
proof (cases "nat m < 10")
  case True
  then show ?thesis
    by (simp add: zero_padded_def Let_def dec_digits_1 digit_char_def del: dec_digits.simps)
next
  case False
  with assms show ?thesis
    by (simp add: zero_padded_def Let_def dec_digits_2 del: dec_digits.simps)
qed

lemma zero_padded_4:
  assumes "0 \<le> y" "y < 10000"
  shows "zero_padded 4 y = [digit_char (nat y div 1000), digit_char (nat y div 100 mod 10),
     digit_char (nat y div 10 mod 10), digit_char (nat y mod 10)]"
proof -
  consider "nat y < 10" | "10 \<le> nat y" "nat y < 100" | "100 \<le> nat y" "nat y < 1000"
    | "1000 \<le> nat y" "nat y < 10000" using assms by linarith
  then show ?thesis
  proof cases
    case 1
    then show ?thesis
      by (simp add: zero_padded_def Let_def dec_digits_1 digit_char_def replicate_small
          del: dec_digits.simps)
  next
    case 2
    then show ?thesis
      by (simp add: zero_padded_def Let_def dec_digits_2 digit_char_def replicate_small
          del: dec_digits.simps)
  next
    case 3
    then show ?thesis
      by (simp add: zero_padded_def Let_def dec_digits_3 digit_char_def replicate_small
          del: dec_digits.simps)
  next
    case 4
    then show ?thesis
      by (simp add: zero_padded_def Let_def dec_digits_4 del: dec_digits.simps)
  qed
qed

text \<open>\<^verbatim>\<open>strptime\<close> reads back what \<^verbatim>\<open>%04d-%02d-%02d\<close> writes.\<close>

lemma month_cases:
  "1 \<le> m \<Longrightarrow> m \<le> 12 \<Longrightarrow>
   m = 1 \<or> m = 2 \<or> m = 3 \<or> m = 4 \<or> m = 5 \<or> m = 6 \<or> m = 7 \<or> m = 8 \<or> m = 9 \<or> m = 10
   \<or> m = 11 \<or> m = (12::int)"
  by arith

lemma day_cases:
  "1 \<le> d \<Longrightarrow> d \<le> 31 \<Longrightarrow>
   d = 1 \<or> d = 2 \<or> d = 3 \<or> d = 4 \<or> d = 5 \<or> d = 6 \<or> d = 7 \<or> d = 8 \<or> d = 9 \<or> d = 10
   \<or> d = 11 \<or> d = 12 \<or> d = 13 \<or> d = 14 \<or> d = 15 \<or> d = 16 \<or> d = 17 \<or> d = 18 \<or> d = 19
   \<or> d = 20 \<or> d = 21 \<or> d = 22 \<or> d = 23 \<or> d = 24 \<or> d = 25 \<or> d = 26 \<or> d = 27 \<or> d = 28
   \<or> d = 29 \<or> d = 30 \<or> d = (31::int)"
  by arith

lemma parse_month_padded:
  assumes "1 \<le> m" "m \<le> 12"
  shows "parse_month (zero_padded 2 m @ c # r) = Some (m, c # r)"
  using month_cases [OF assms]
  by (elim disjE)
    (simp_all add: zero_padded_2 parse_month_def digit_char_def is_digit19_def digit_val_def)

lemma parse_day_padded:
  assumes "1 \<le> d" "d \<le> 31"
  shows "parse_day (zero_padded 2 d) = Some (d, [])"
  using day_cases [OF assms]
  by (elim disjE)
    (simp_all add: zero_padded_2 parse_day_def digit_char_def is_digit_def is_digit19_def
      digit_val_def)

lemma nat_digits:
  "1000 * (n div 1000) + 100 * (n div 100 mod 10) + 10 * (n div 10 mod 10) + n mod 10 = (n::nat)"
proof -
  define a where "a = n div 10"
  define b where "b = a div 10"
  have 1: "n div 100 = b" "n div 1000 = b div 10"
    by (simp_all add: a_def b_def div_mult2_eq [symmetric])
  have "n = 10 * a + n mod 10" by (simp add: a_def)
  moreover have "a = 10 * b + a mod 10" by (simp add: b_def)
  moreover have "b = 10 * (b div 10) + b mod 10" by simp
  ultimately have "n = 1000 * (b div 10) + 100 * (b mod 10) + 10 * (a mod 10) + n mod 10"
    by linarith
  then show ?thesis unfolding 1 a_def [symmetric] by simp
qed

lemma year_digits:
  assumes "0 \<le> y"
  shows "1000 * int (nat y div 1000) + 100 * int (nat y div 100 mod 10)
           + 10 * int (nat y div 10 mod 10) + int (nat y mod 10) = y"
proof -
  have "int (1000 * (nat y div 1000) + 100 * (nat y div 100 mod 10) + 10 * (nat y div 10 mod 10)
          + nat y mod 10) = int (nat y)"
    by (simp only: nat_digits)
  with assms show ?thesis by simp
qed

lemma strptime_date_padded:
  assumes "0 \<le> y" "y < 10000" "1 \<le> m" "m \<le> 12" "1 \<le> d" "d \<le> 31"
  shows "strptime_date (zero_padded 4 y @ ''-'' @ zero_padded 2 m @ ''-'' @ zero_padded 2 d)
           = make_date y m d"
proof -
  have lt: "nat y div 1000 < 10" "nat y div 100 mod 10 < 10" "nat y div 10 mod 10 < 10"
    "nat y mod 10 < 10" using assms(1,2) by simp_all
  have "strptime_date (zero_padded 4 y @ ''-'' @ zero_padded 2 m @ ''-'' @ zero_padded 2 d)
      = make_date (1000 * int (nat y div 1000) + 100 * int (nat y div 100 mod 10)
           + 10 * int (nat y div 10 mod 10) + int (nat y mod 10)) m d"
    unfolding zero_padded_4 [OF assms(1,2)]
    using parse_month_padded [OF assms(3,4), of "CHR ''-''" "zero_padded 2 d"]
      parse_day_padded [OF assms(5,6)]
    by (simp add: strptime_date_def digit_char_props(1,2) [OF lt(1)] digit_char_props(1,2) [OF lt(2)]
        digit_char_props(1,2) [OF lt(3)] digit_char_props(1,2) [OF lt(4)])
  then show ?thesis unfolding year_digits [OF assms(1)] .
qed

text \<open>\<^verbatim>\<open>_ymd2ord\<close> inverts \<^verbatim>\<open>_ord2ymd\<close> on the ordinals of the years 1 to 9999.\<close>

lemma days_before_year_decomp:
  fixes a b c e :: int
  assumes "0 \<le> b" "b \<le> 3" "0 \<le> c" "c \<le> 24" "0 \<le> e" "e \<le> 3"
  shows "days_before_year (400 * a + 100 * b + 4 * c + e + 1)
           = 146097 * a + 36524 * b + 1461 * c + 365 * e"
proof -
  let ?y = "400 * a + 100 * b + 4 * c + e"
  have 4: "?y div 4 = 100 * a + 25 * b + c"
    using div_mod_decomp(1) [of e 4 "100 * a + 25 * b + c"] assms by (simp add: algebra_simps)
  have 100: "?y div 100 = 4 * a + b"
    using div_mod_decomp(1) [of "4 * c + e" 100 "4 * a + b"] assms by (simp add: algebra_simps)
  have 400: "?y div 400 = a"
    using div_mod_decomp(1) [of "100 * b + 4 * c + e" 400 a] assms by (simp add: algebra_simps)
  show ?thesis
    by (simp add: days_before_year_def Let_def 4 100 400)
qed

lemma is_leap_decomp:
  fixes a b c e :: int
  assumes "0 \<le> b" "b \<le> 3" "0 \<le> c" "c \<le> 24" "0 \<le> e" "e \<le> 3"
  shows "is_leap (400 * a + 100 * b + 4 * c + e + 1) \<longleftrightarrow> e = 3 \<and> (c \<noteq> 24 \<or> b = 3)"
proof -
  let ?y = "400 * a + 100 * b + 4 * c + e + 1"
  show ?thesis
  proof (cases "e = 3")
    case False
    with assms have "?y mod 4 = e + 1"
      using div_mod_decomp(2) [of "e + 1" 4 "100 * a + 25 * b + c"] by (simp add: algebra_simps)
    with False assms show ?thesis by (simp add: is_leap_def)
  next
    case True
    have m4: "?y mod 4 = 0"
      using div_mod_decomp(2) [of 0 4 "100 * a + 25 * b + c + 1"] True by (simp add: algebra_simps)
    show ?thesis
    proof (cases "c = 24")
      case c: False
      with assms True have "?y mod 100 = 4 * c + 4"
        using div_mod_decomp(2) [of "4 * c + 4" 100 "4 * a + b"] by (simp add: algebra_simps)
      with c assms True m4 show ?thesis by (simp add: is_leap_def)
    next
      case c: True
      have m100: "?y mod 100 = 0"
        using div_mod_decomp(2) [of 0 100 "4 * a + b + 1"] True c by (simp add: algebra_simps)
      show ?thesis
      proof (cases "b = 3")
        case b: True
        have "?y mod 400 = 0"
          using div_mod_decomp(2) [of 0 400 "a + 1"] True c b by (simp add: algebra_simps)
        with m4 m100 True c b show ?thesis by (simp add: is_leap_def)
      next
        case b: False
        with assms True c have "?y mod 400 = 100 * b + 100"
          using div_mod_decomp(2) [of "100 * b + 100" 400 a] by (simp add: algebra_simps)
        with m4 m100 True c b assms show ?thesis by (simp add: is_leap_def)
      qed
    qed
  qed
qed

lemma month_day_lookup:
  fixes r :: int and leap :: bool
  assumes "0 \<le> r" "r < 365"
  shows "\<exists>m d.
     (let month = (r + 50) div 32;
          preceding = DAYS_BEFORE_MONTH ! nat month + (if month > 2 \<and> leap then 1 else 0)
      in if preceding > r
         then
           let month = month - 1;
               preceding = preceding
                 - (DAYS_IN_MONTH ! nat month + (if month = 2 \<and> leap then 1 else 0))
           in (month, r - preceding + 1)
         else (month, r - preceding + 1)) = (m, d)
     \<and> 1 \<le> m \<and> m \<le> 12 \<and> 1 \<le> d
     \<and> d \<le> (if m = 2 \<and> leap then 29 else DAYS_IN_MONTH ! nat m)
     \<and> DAYS_BEFORE_MONTH ! nat m + (if m > 2 \<and> leap then 1 else 0) + d = r + 1"
proof -
  have "1 \<le> (r + 50) div 32" "(r + 50) div 32 \<le> 12" using assms by linarith+
  from month_cases [OF this] show ?thesis
  proof (elim disjE)
    assume "(r + 50) div 32 = 1"
    with assms show ?thesis by (auto simp: Let_def DAYS_BEFORE_MONTH_def DAYS_IN_MONTH_def)
  next
    assume "(r + 50) div 32 = 2"
    with assms show ?thesis by (auto simp: Let_def DAYS_BEFORE_MONTH_def DAYS_IN_MONTH_def)
  next
    assume "(r + 50) div 32 = 3"
    with assms show ?thesis by (auto simp: Let_def DAYS_BEFORE_MONTH_def DAYS_IN_MONTH_def)
  next
    assume "(r + 50) div 32 = 4"
    with assms show ?thesis by (auto simp: Let_def DAYS_BEFORE_MONTH_def DAYS_IN_MONTH_def)
  next
    assume "(r + 50) div 32 = 5"
    with assms show ?thesis by (auto simp: Let_def DAYS_BEFORE_MONTH_def DAYS_IN_MONTH_def)
  next
    assume "(r + 50) div 32 = 6"
    with assms show ?thesis by (auto simp: Let_def DAYS_BEFORE_MONTH_def DAYS_IN_MONTH_def)
  next
    assume "(r + 50) div 32 = 7"
    with assms show ?thesis by (auto simp: Let_def DAYS_BEFORE_MONTH_def DAYS_IN_MONTH_def)
  next
    assume "(r + 50) div 32 = 8"
    with assms show ?thesis by (auto simp: Let_def DAYS_BEFORE_MONTH_def DAYS_IN_MONTH_def)
  next
    assume "(r + 50) div 32 = 9"
    with assms show ?thesis by (auto simp: Let_def DAYS_BEFORE_MONTH_def DAYS_IN_MONTH_def)
  next
    assume "(r + 50) div 32 = 10"
    with assms show ?thesis by (auto simp: Let_def DAYS_BEFORE_MONTH_def DAYS_IN_MONTH_def)
  next
    assume "(r + 50) div 32 = 11"
    with assms show ?thesis by (auto simp: Let_def DAYS_BEFORE_MONTH_def DAYS_IN_MONTH_def)
  next
    assume "(r + 50) div 32 = 12"
    with assms show ?thesis by (auto simp: Let_def DAYS_BEFORE_MONTH_def DAYS_IN_MONTH_def)
  qed
qed

lemma ord2ymd_valid:
  assumes "1 \<le> n" "n \<le> 3652059"
  shows "valid_ymd n (ord2ymd n)"
proof -
  define n0 where "n0 = n - 1"
  define a where "a = n0 div 146097"
  define r1 where "r1 = n0 mod 146097"
  define b where "b = r1 div 36524"
  define r2 where "r2 = r1 mod 36524"
  define c where "c = r2 div 1461"
  define r3 where "r3 = r2 mod 1461"
  define e where "e = r3 div 365"
  define r4 where "r4 = r3 mod 365"
  define leap where "leap \<longleftrightarrow> e = 3 \<and> (c \<noteq> 24 \<or> b = 3)"
  have n0: "0 \<le> n0" "n0 \<le> 3652058" using assms by (simp_all add: n0_def)
  have a: "0 \<le> a" "a \<le> 24" using n0 by (simp_all add: a_def)
  have r1: "0 \<le> r1" "r1 < 146097" "n0 = 146097 * a + r1"
    by (simp_all add: r1_def a_def)
  have b: "0 \<le> b" "b \<le> 4" using r1(1,2) by (simp_all add: b_def)
  have r2: "0 \<le> r2" "r2 < 36524" "r1 = 36524 * b + r2"
    by (simp_all add: r2_def b_def)
  have c: "0 \<le> c" "c \<le> 24" using r2(1,2) by (simp_all add: c_def)
  have r3: "0 \<le> r3" "r3 < 1461" "r2 = 1461 * c + r3"
    by (simp_all add: r3_def c_def)
  have e: "0 \<le> e" "e \<le> 4" using r3(1,2) by (simp_all add: e_def)
  have r4: "0 \<le> r4" "r4 < 365" "r3 = 365 * e + r4"
    by (simp_all add: r4_def e_def)
  have sum: "n = 146097 * a + 36524 * b + 1461 * c + 365 * e + r4 + 1"
    using r1(3) r2(3) r3(3) r4(3) by (simp add: n0_def)
  define Y where "Y = a * 400 + 1 + b * 100 + c * 4 + e"
  have unfold: "ord2ymd n =
     (if e = 4 \<or> b = 4 then (Y - 1, 12, 31)
      else
        let month = (r4 + 50) div 32;
            preceding = DAYS_BEFORE_MONTH ! nat month + (if month > 2 \<and> leap then 1 else 0)
        in if preceding > r4
           then
             let month = month - 1;
                 preceding = preceding
                   - (DAYS_IN_MONTH ! nat month + (if month = 2 \<and> leap then 1 else 0))
             in (Y, month, r4 - preceding + 1)
           else (Y, month, r4 - preceding + 1))"
    unfolding ord2ymd_def Let_def Y_def leap_def r4_def e_def r3_def c_def r2_def b_def r1_def
      a_def n0_def
    by (rule refl)
  have Y: "Y = 400 * a + 100 * b + 4 * c + e + 1" by (simp add: Y_def)
  show ?thesis
  proof (cases "e = 4 \<or> b = 4")
    case True
    define b' c' where "b' = (if b = 4 then 3 else b)" and "c' = (if b = 4 then 24 else c)"
    have sp: "r4 = 0" "b = 4 \<longrightarrow> c = 0 \<and> e = 0" "e = 4 \<longrightarrow> c \<le> 23"
      using True r1 r2 r3 r4 b c e by auto
    have y: "Y - 1 = 400 * a + 100 * b' + 4 * c' + 3 + 1"
      using True sp b e by (auto simp: b'_def c'_def Y)
    have bc: "0 \<le> b'" "b' \<le> 3" "0 \<le> c'" "c' \<le> 24"
      using b c True sp by (auto simp: b'_def c'_def)
    have lp: "is_leap (400 * a + 100 * b' + 4 * c' + 3 + 1)"
      using is_leap_decomp [OF bc, of 3 a] True sp by (auto simp: b'_def c'_def)
    have dby: "days_before_year (400 * a + 100 * b' + 4 * c' + 3 + 1)
                 = 146097 * a + 36524 * b' + 1461 * c' + 365 * 3"
      using days_before_year_decomp [OF bc, of 3 a] by simp
    have tot: "146097 * a + 36524 * b' + 1461 * c' + 365 * 3 + 366 = n"
      using sum True sp b e by (auto simp: b'_def c'_def)
    have yr: "400 * a + 100 * b' + 4 * c' + 3 + 1 \<le> 9999"
      using tot assms(2) a bc by linarith
    have yr1: "1 \<le> 400 * a + 100 * b' + 4 * c' + 3 + 1" using a bc by linarith
    show ?thesis
      unfolding unfold using True y lp dby tot yr yr1
      by (simp add: valid_ymd_def days_in_month_def ymd2ord_def days_before_month_def
          DAYS_IN_MONTH_def DAYS_BEFORE_MONTH_def)
  next
    case False
    then have be: "b \<le> 3" "e \<le> 3" using b e by auto
    let ?y = "400 * a + 100 * b + 4 * c + e + 1"
    have lp: "is_leap ?y \<longleftrightarrow> leap"
      using is_leap_decomp [OF b(1) be(1) c e(1) be(2), of a] by (simp add: leap_def)
    have dby: "days_before_year ?y = 146097 * a + 36524 * b + 1461 * c + 365 * e"
      by (rule days_before_year_decomp [OF b(1) be(1) c e(1) be(2)])
    have yr1: "1 \<le> ?y" using a b c e by linarith
    have yr: "?y \<le> 9999"
    proof (rule ccontr)
      assume "\<not> ?y \<le> 9999"
      then have "9999 \<le> 400 * a + 100 * b + 4 * c + e" by simp
      with a be c have "a = 24 \<and> b = 3 \<and> c = 24 \<and> e = 3" by linarith
      with sum r4(1) assms(2) show False by simp
    qed
    from month_day_lookup [OF r4(1,2), of leap] obtain m d where md:
      "(let month = (r4 + 50) div 32;
          preceding = DAYS_BEFORE_MONTH ! nat month + (if month > 2 \<and> leap then 1 else 0)
        in if preceding > r4
         then
           let month = month - 1;
               preceding = preceding
                 - (DAYS_IN_MONTH ! nat month + (if month = 2 \<and> leap then 1 else 0))
           in (month, r4 - preceding + 1)
         else (month, r4 - preceding + 1)) = (m, d)"
      "1 \<le> m" "m \<le> 12" "1 \<le> d"
      "d \<le> (if m = 2 \<and> leap then 29 else DAYS_IN_MONTH ! nat m)"
      "DAYS_BEFORE_MONTH ! nat m + (if m > 2 \<and> leap then 1 else 0) + d = r4 + 1"
      by blast
    have res: "ord2ymd n = (?y, m, d)"
    proof -
      have "ord2ymd n = (case (m, d) of (m, d) \<Rightarrow> (Y, m, d))"
        unfolding unfold md(1) [symmetric] using False by (simp add: Let_def)
      then show ?thesis by (simp add: Y)
    qed
    show ?thesis
      unfolding res using md(2-6) lp dby yr yr1 sum
      by (simp add: valid_ymd_def days_in_month_def ymd2ord_def days_before_month_def)
  qed
qed

lemma days_in_month_le_31: "1 \<le> m \<Longrightarrow> m \<le> 12 \<Longrightarrow> days_in_month y m \<le> 31"
  using month_cases [of m]
  by (auto simp: days_in_month_def DAYS_IN_MONTH_def)

lemma str_date_padded:
  assumes "1 \<le> n" "n \<le> 3652059"
  shows "\<exists>y m d. str_date n = zero_padded 4 y @ ''-'' @ zero_padded 2 m @ ''-'' @ zero_padded 2 d
           \<and> 1 \<le> y \<and> y \<le> 9999 \<and> 1 \<le> m \<and> m \<le> 12 \<and> 1 \<le> d \<and> d \<le> 31
           \<and> make_date y m d = Inr n"
proof -
  obtain y m d where ymd: "ord2ymd n = (y, m, d)" by (cases "ord2ymd n") auto
  from ord2ymd_valid [OF assms] ymd have v: "1 \<le> y" "y \<le> 9999" "1 \<le> m" "m \<le> 12" "1 \<le> d"
    "d \<le> days_in_month y m" "ymd2ord y m d = n"
    by (simp_all add: valid_ymd_def)
  from v(6) days_in_month_le_31 [OF v(3,4), of y] have "d \<le> 31" by linarith
  moreover have "make_date y m d = Inr n" using v by (simp add: make_date_def)
  moreover have "str_date n = zero_padded 4 y @ ''-'' @ zero_padded 2 m @ ''-'' @ zero_padded 2 d"
    by (simp add: str_date_def ymd)
  ultimately show ?thesis using v(1-5) by blast
qed

lemma strptime_str_date:
  assumes "1 \<le> n" "n \<le> 3652059"
  shows "strptime_date (str_date n) = Inr n"
proof -
  from str_date_padded [OF assms] obtain y m d where
    s: "str_date n = zero_padded 4 y @ ''-'' @ zero_padded 2 m @ ''-'' @ zero_padded 2 d"
    and v: "1 \<le> y" "y \<le> 9999" "1 \<le> m" "m \<le> 12" "1 \<le> d" "d \<le> 31"
    and mk: "make_date y m d = Inr n" by blast
  from v(1,2) have y: "0 \<le> y" "y < 10000" by simp_all
  show ?thesis unfolding s strptime_date_padded [OF y v(3-6)] by (rule mk)
qed

lemma is_iso_date_str_date:
  assumes "1 \<le> n" "n \<le> 3652059"
  shows "is_iso_date (str_date n)"
proof -
  from str_date_padded [OF assms] obtain y m d where
    s: "str_date n = zero_padded 4 y @ ''-'' @ zero_padded 2 m @ ''-'' @ zero_padded 2 d"
    and v: "1 \<le> y" "y \<le> 9999" "1 \<le> m" "m \<le> 12" "1 \<le> d" "d \<le> 31" by blast
  from v have y: "0 \<le> y" "y < 10000" and m: "0 \<le> m" "m < 100" and d: "0 \<le> d" "d < 100"
    by simp_all
  have lt: "nat y div 1000 < 10" "nat y div 100 mod 10 < 10" "nat y div 10 mod 10 < 10"
    "nat y mod 10 < 10" "nat m div 10 < 10" "nat m mod 10 < 10" "nat d div 10 < 10"
    "nat d mod 10 < 10"
    using y m d by simp_all
  show ?thesis
    unfolding s zero_padded_4 [OF y] zero_padded_2 [OF m] zero_padded_2 [OF d]
    using lt by (simp add: is_iso_date_def digit_char_props(1))
qed

lemma parse_completions_str:
  "list_all date_in_range cs \<Longrightarrow> parse_completions (map py_str cs) = Inr cs"
proof (induction cs)
  case Nil
  show ?case by simp
next
  case (Cons c cs)
  then obtain n where c: "c = PyDate n" "1 \<le> n" "n \<le> 3652059"
    by (cases c) (auto simp: date_in_range_def)
  with Cons show ?case by (simp add: strptime_str_date)
qed

text \<open>
  A habit whose completions are dates (from 0001-01-01 to 9999-12-31) is saved with
  every completion in the form \<^verbatim>\<open>YYYY-MM-DD\<close> and is read back with the same
  name, period and completions; the creation time is that of the new object.
\<close>

lemma saved_dates_load_back:
  assumes "list_all date_in_range (completions h)"
  shows "list_all is_iso_date (data_completions (save_habit h))"
    and "from_dict now (save_habit h) = Inr (h\<lparr>creation_time := str_datetime now\<rparr>)"
proof -
  show "list_all is_iso_date (data_completions (save_habit h))"
  proof -
    have "is_iso_date (py_str c)" if "c \<in> set (completions h)" for c
    proof -
      from assms that obtain n where "c = PyDate n" "1 \<le> n" "n \<le> 3652059"
        by (cases c) (auto simp: date_in_range_def list_all_iff)
      then show ?thesis by (simp add: is_iso_date_str_date)
    qed
    then show ?thesis by (simp add: save_habit_def list_all_iff)
  qed
  show "from_dict now (save_habit h) = Inr (h\<lparr>creation_time := str_datetime now\<rparr>)"
    using parse_completions_str [OF assms]
    by (simp add: from_dict_def save_habit_def init_habit_def)
qed

text \<open>The example of the specification: the completions 2023-05-01 and 2023-05-02 of a daily habit.\<close>

lemma ord2ymd_examples:
  "ord2ymd 738641 = (2023, 5, 1)" "ord2ymd 738642 = (2023, 5, 2)"
  by (simp_all add: ord2ymd_def Let_def DAYS_BEFORE_MONTH_def DAYS_IN_MONTH_def)

lemma str_date_examples:
  "str_date 738641 = ''2023-05-01''" "str_date 738642 = ''2023-05-02''"
  by (simp_all add: str_date_def ord2ymd_examples zero_padded_def Let_def digit_char_def)

lemma str_datetime_example:
  "str_datetime 63818627696123456 = ''2023-05-01 12:34:56.123456''"
proof -
  have "date_of 63818627696123456 = 738641"
    and "63818627696123456 mod us_per_day = 45296123456"
    by (simp_all add: date_of_def us_per_day_def)
  then show ?thesis
    by (simp add: str_datetime_def Let_def str_date_examples zero_padded_def digit_char_def)
qed

lemma strptime_date_examples:
  "strptime_date ''2023-05-01'' = Inr 738641" "strptime_date ''2023-05-02'' = Inr 738642"
  by (simp_all add: strptime_date_def parse_month_def parse_day_def is_digit_def is_digit19_def
      digit_val_def make_date_def days_in_month_def ymd2ord_def days_before_year_def
      days_before_month_def DAYS_BEFORE_MONTH_def DAYS_IN_MONTH_def is_leap_def)

lemma strptime_date_datetime_text:
  "strptime_date ''2023-05-01 12:34:56.123456'' = Inl ValueError"
  by (simp add: strptime_date_def parse_month_def parse_day_def is_digit_def is_digit19_def
      digit_val_def)

lemma saved_dates_example:
  "data_completions (save_habit \<lparr>name = ''Reading'', period = ''daily'',
      creation_time = ''2023-05-01 08:00:00'', completions = [PyDate 738641, PyDate 738642]\<rparr>)
     = [''2023-05-01'', ''2023-05-02'']
   \<and> from_dict now (save_habit \<lparr>name = ''Reading'', period = ''daily'',
      creation_time = ''2023-05-01 08:00:00'', completions = [PyDate 738641, PyDate 738642]\<rparr>)
     = Inr \<lparr>name = ''Reading'', period = ''daily'', creation_time = str_datetime now,
            completions = [PyDate 738641, PyDate 738642]\<rparr>"
  by (simp add: save_habit_def from_dict_def init_habit_def str_date_examples
      strptime_date_examples)

text \<open>
  C4 does not hold on a habit that \<^verbatim>\<open>complete\<close> has written to: the datetime
  2023-05-01 12:34:56.123456 is saved as that text, not as \<^verbatim>\<open>YYYY-MM-DD\<close>, and
  \<^verbatim>\<open>from_dict\<close> raises \<^verbatim>\<open>ValueError\<close> on it.
\<close>

theorem saved_datetime_completion_fails_to_load:
  "data_completions (save_habit \<lparr>name = ''Reading'', period = ''daily'',
      creation_time = ''2023-05-01 08:00:00'', completions = [PyDatetime 63818627696123456]\<rparr>)
     = [''2023-05-01 12:34:56.123456'']
   \<and> from_dict now (save_habit \<lparr>name = ''Reading'', period = ''daily'',
      creation_time = ''2023-05-01 08:00:00'', completions = [PyDatetime 63818627696123456]\<rparr>)
     = Inl ValueError"
  by (simp add: save_habit_def from_dict_def str_datetime_example strptime_date_datetime_text)

end
